theory Spec2Isabelle
  imports Main "HOL-Library.Sublist"
begin

section \<open>Python values used by the CI scripts\<close>

text \<open>
  The scripts under \<^verbatim>\<open>src/scripts\<close> are Python. A Python \<^verbatim>\<open>str\<close> is modelled as a
  \<^typ>\<open>string\<close>; a \<^typ>\<open>char\<close> stands for a code point below 256. Every place where the source
  raises is a branch of the model: the functions return \<open>error + 'a\<close>, with \<open>Inl\<close> for the
  exception that leaves the function.
\<close>

datatype error =
    IndexError        \<comment> \<open>\<^verbatim>\<open>xs[0]\<close> on an empty list\<close>
  | AttributeError    \<comment> \<open>a field of the event payload that is absent or \<^verbatim>\<open>None\<close>\<close>
  | HTTPError         \<comment> \<open>a call of the GitHub API that fails\<close>

definition and_then :: "error + 'a \<Rightarrow> ('a \<Rightarrow> error + 'b) \<Rightarrow> error + 'b" where
  "and_then m f = (case m of Inl e \<Rightarrow> Inl e | Inr x \<Rightarrow> f x)"

subsection \<open>\<^verbatim>\<open>str.split(sep, 1)[0]\<close>, \<^verbatim>\<open>str.splitlines()\<close>, \<^verbatim>\<open>str.endswith\<close>\<close>

definition backslash :: char where
  "backslash = CHR 0x5C"

text \<open>The raw literals \<^verbatim>\<open>r"\n"\<close> and \<^verbatim>\<open>r"\r"\<close>: a backslash followed by a letter.\<close>

definition escaped_n :: string where
  "escaped_n = [backslash, CHR ''n'']"

definition escaped_r :: string where
  "escaped_r = [backslash, CHR ''r'']"

text \<open>
  \<^verbatim>\<open>s.split(sep, 1)[0]\<close> for a non-empty \<^verbatim>\<open>sep\<close>: the text before the leftmost occurrence of
  \<^verbatim>\<open>sep\<close>, and all of \<^verbatim>\<open>s\<close> when there is none. The list \<^verbatim>\<open>split\<close> returns is never empty,
  so the index cannot fail.
\<close>

fun split_first :: "string \<Rightarrow> string \<Rightarrow> string" where
  "split_first sep [] = []"
| "split_first sep (c # cs) = (if prefix sep (c # cs) then [] else c # split_first sep cs)"

text \<open>\<^verbatim>\<open>sub in s\<close>: the text \<^verbatim>\<open>sub\<close> occurs in \<^verbatim>\<open>s\<close>.\<close>

fun contains :: "string \<Rightarrow> string \<Rightarrow> bool" where
  "contains sub [] = (sub = [])"
| "contains sub (c # cs) = (prefix sub (c # cs) \<or> contains sub cs)"

text \<open>
  The line boundaries of \<^verbatim>\<open>str.splitlines\<close> among the code points below 256: line feed,
  carriage return, vertical tab, form feed, file, group and record separator, next line.
\<close>

definition linebreak :: "char \<Rightarrow> bool" where
  "linebreak c = (c \<in> set [CHR 0x0A, CHR 0x0D, CHR 0x0B, CHR 0x0C, CHR 0x1C, CHR 0x1D, CHR 0x1E, CHR 0x85])"

definition first_line :: "string \<Rightarrow> string" where
  "first_line s = takeWhile (\<lambda>c. \<not> linebreak c) s"

text \<open>What follows the first line and its terminator; \<^verbatim>\<open>\r\n\<close> is one terminator.\<close>

definition after_line :: "string \<Rightarrow> string" where
  "after_line s =
     (case dropWhile (\<lambda>c. \<not> linebreak c) s of
        [] \<Rightarrow> []
      | r # rs \<Rightarrow>
          (if r = CHR 0x0D then (case rs of [] \<Rightarrow> [] | d # ds \<Rightarrow> if d = CHR 0x0A then ds else rs)
           else rs))"

lemma length_after_line: "s \<noteq> [] \<Longrightarrow> length (after_line s) < length s"
proof -
  assume ne: "s \<noteq> []"
  have le: "length (dropWhile (\<lambda>c. \<not> linebreak c) s) \<le> length s"
    by (rule length_dropWhile_le)
  show ?thesis
  proof (cases "dropWhile (\<lambda>c. \<not> linebreak c) s")
    case Nil
    have "after_line s = []"
      unfolding after_line_def Nil by simp
    with ne show ?thesis by simp
  next
    case (Cons r rs)
    with le have lt: "length rs < length s" by simp
    have "length (after_line s) \<le> length rs"
      unfolding after_line_def Cons by (simp split: list.splits)
    with lt show ?thesis by simp
  qed
qed

text \<open>
  \<^verbatim>\<open>s.splitlines()\<close>: the lines of \<^verbatim>\<open>s\<close> without their terminators. The empty string has no
  line, and a terminator at the very end opens no further line.
\<close>

function splitlines :: "string \<Rightarrow> string list" where
  "splitlines s = (if s = [] then [] else first_line s # splitlines (after_line s))"
  by pat_completeness auto
termination
  by (relation "measure length") (auto simp: length_after_line)

declare splitlines.simps [simp del]

text \<open>\<^verbatim>\<open>xs[0]\<close>\<close>

definition index0 :: "'a list \<Rightarrow> error + 'a" where
  "index0 xs = (case xs of [] \<Rightarrow> Inl IndexError | x # _ \<Rightarrow> Inr x)"

text \<open>\<^verbatim>\<open>s.endswith(suf)\<close>\<close>

definition endswith :: "string \<Rightarrow> string \<Rightarrow> bool" where
  "endswith s suf = (length suf \<le> length s \<and> drop (length s - length suf) s = suf)"

subsection \<open>Regular expressions: \<^verbatim>\<open>re.compile(p).match(s)\<close>\<close>

text \<open>
  The three patterns of \<^verbatim>\<open>predeploy.py\<close> use literals, character classes, \<^verbatim>\<open>.\<close>, \<^verbatim>\<open>*\<close>,
  \<^verbatim>\<open>+\<close>, \<^verbatim>\<open>?\<close> and groups: regular expressions over character predicates. The scripts
  only test a match object for truth, so the model answers whether a match exists.
\<close>

datatype rexp =
    Zero
  | One
  | Atom "char \<Rightarrow> bool"
  | Alt rexp rexp
  | Seq rexp rexp
  | Star rexp

text \<open>The reference semantics: \<open>matches r s\<close> when all of \<open>s\<close> is a word of \<open>r\<close>.\<close>

inductive matches :: "rexp \<Rightarrow> string \<Rightarrow> bool" where
  m_One: "matches One []"
| m_Atom: "p c \<Longrightarrow> matches (Atom p) [c]"
| m_AltL: "matches r s \<Longrightarrow> matches (Alt r r') s"
| m_AltR: "matches r' s \<Longrightarrow> matches (Alt r r') s"
| m_Seq: "matches r s \<Longrightarrow> matches r' t \<Longrightarrow> matches (Seq r r') (s @ t)"
| m_StarNil: "matches (Star r) []"
| m_StarStep: "matches r s \<Longrightarrow> matches (Star r) t \<Longrightarrow> matches (Star r) (s @ t)"

text \<open>The executable matcher works with derivatives, kept small by \<open>alt\<close> and \<open>seq\<close>.\<close>

fun nullable :: "rexp \<Rightarrow> bool" where
  "nullable Zero = False"
| "nullable One = True"
| "nullable (Atom p) = False"
| "nullable (Alt r s) = (nullable r \<or> nullable s)"
| "nullable (Seq r s) = (nullable r \<and> nullable s)"
| "nullable (Star r) = True"

fun alt :: "rexp \<Rightarrow> rexp \<Rightarrow> rexp" where
  "alt Zero s = s"
| "alt r Zero = r"
| "alt r s = Alt r s"

fun seq :: "rexp \<Rightarrow> rexp \<Rightarrow> rexp" where
  "seq Zero s = Zero"
| "seq One s = s"
| "seq r s = Seq r s"

fun deriv :: "char \<Rightarrow> rexp \<Rightarrow> rexp" where
  "deriv c Zero = Zero"
| "deriv c One = Zero"
| "deriv c (Atom p) = (if p c then One else Zero)"
| "deriv c (Alt r s) = alt (deriv c r) (deriv c s)"
| "deriv c (Seq r s) =
     (if nullable r then alt (seq (deriv c r) s) (deriv c s) else seq (deriv c r) s)"
| "deriv c (Star r) = seq (deriv c r) (Star r)"

text \<open>\<^verbatim>\<open>pattern.fullmatch(s)\<close> is truthy: the pattern matches all of \<open>s\<close>.\<close>

fun fullmatch :: "rexp \<Rightarrow> string \<Rightarrow> bool" where
  "fullmatch r [] = nullable r"
| "fullmatch r (c # cs) = fullmatch (deriv c r) cs"

text \<open>
  \<^verbatim>\<open>pattern.match(s)\<close> is truthy: the pattern matches at the start of \<open>s\<close>, wherever the
  match ends.
\<close>

fun re_match :: "rexp \<Rightarrow> string \<Rightarrow> bool" where
  "re_match r [] = nullable r"
| "re_match r (c # cs) = (nullable r \<or> re_match (deriv c r) cs)"

definition Chr :: "char \<Rightarrow> rexp" where
  "Chr c = Atom (\<lambda>x. x = c)"

text \<open>\<^verbatim>\<open>.\<close> without \<^verbatim>\<open>re.DOTALL\<close>: any character but the line feed.\<close>

definition Dot :: rexp where
  "Dot = Atom (\<lambda>x. x \<noteq> CHR 0x0A)"

definition Plus :: "rexp \<Rightarrow> rexp" where
  "Plus r = Seq r (Star r)"

definition Opt :: "rexp \<Rightarrow> rexp" where
  "Opt r = Alt r One"

fun lit :: "string \<Rightarrow> rexp" where
  "lit [] = One"
| "lit (c # cs) = Seq (Chr c) (lit cs)"

definition code :: "char \<Rightarrow> nat" where
  "code c = of_char c"

text \<open>\<^verbatim>\<open>[0-9]\<close> and \<^verbatim>\<open>[a-z]\<close>\<close>

definition digit :: "char \<Rightarrow> bool" where
  "digit c = (48 \<le> code c \<and> code c \<le> 57)"

definition lower_letter :: "char \<Rightarrow> bool" where
  "lower_letter c = (97 \<le> code c \<and> code c \<le> 122)"

definition upper_letter :: "char \<Rightarrow> bool" where
  "upper_letter c = (65 \<le> code c \<and> code c \<le> 90)"

text \<open>
  \<^verbatim>\<open>\s\<close> in a \<^verbatim>\<open>str\<close> pattern, among the code points below 256: tab to carriage return,
  the four separators, space, next line and the no-break space.
\<close>

definition whitespace :: "char \<Rightarrow> bool" where
  "whitespace c = ((9 \<le> code c \<and> code c \<le> 13) \<or> (28 \<le> code c \<and> code c \<le> 32) \<or>
     code c = 133 \<or> code c = 160)"

text \<open>
  \<^verbatim>\<open>str.lower\<close> on one character, for the code points below 256 whose lower case is
  below 256 too: the letters A to Z and the accented capitals of Latin-1.
\<close>

definition lower_char :: "char \<Rightarrow> char" where
  "lower_char c =
     (if upper_letter c \<or> (192 \<le> code c \<and> code c \<le> 222 \<and> code c \<noteq> 215)
      then char_of (code c + 32) else c)"

text \<open>A literal character under \<^verbatim>\<open>re.IGNORECASE\<close>.\<close>

definition Chr_ic :: "char \<Rightarrow> rexp" where
  "Chr_ic c = Atom (\<lambda>x. lower_char x = lower_char c)"

fun lit_ic :: "string \<Rightarrow> rexp" where
  "lit_ic [] = One"
| "lit_ic (c # cs) = Seq (Chr_ic c) (lit_ic cs)"

subsection \<open>\<^verbatim>\<open>shlex.quote\<close> and the shell's quote removal\<close>

definition squote :: char where
  "squote = CHR 0x27"

definition dquote :: char where
  "dquote = CHR 0x22"

text \<open>
  The characters \<^verbatim>\<open>shlex.quote\<close> leaves alone, \<^verbatim>\<open>[\w@%+=:,./-]\<close> under \<^verbatim>\<open>re.ASCII\<close>.
\<close>

definition shell_safe :: "char \<Rightarrow> bool" where
  "shell_safe c = (lower_letter c \<or> upper_letter c \<or> digit c \<or> c \<in> set ''_@%+=:,./-'')"

text \<open>\<^verbatim>\<open>s.replace("'", "'\"'\"'")\<close>\<close>

fun replace_squote :: "string \<Rightarrow> string" where
  "replace_squote [] = []"
| "replace_squote (c # cs) =
     (if c = squote then [squote, dquote, squote, dquote, squote] @ replace_squote cs
      else c # replace_squote cs)"

text \<open>
  \<^verbatim>\<open>def quote(s):
    if not s:
        return "''"
    if _find_unsafe(s) is None:
        return s
    return "'" + s.replace("'", "'\"'\"'") + "'"\<close>
\<close>

definition shlex_quote :: "string \<Rightarrow> string" where
  "shlex_quote s =
     (if s = [] then [squote, squote]
      else if list_all shell_safe s then s
      else [squote] @ replace_squote s @ [squote])"

text \<open>
  What a POSIX shell makes of one word: quote removal. Outside quotes a backslash keeps
  the next character, a quote opens a quoted part, and a character the shell would split or
  expand at (blank, operator, \<^verbatim>\<open>$\<close>, backquote, glob and the like) ends the reading with
  \<open>None\<close>, as does a quote left open. Between single quotes every character stands for
  itself. Between double quotes a backslash escapes \<^verbatim>\<open>$\<close>, backquote, \<^verbatim>\<open>"\<close> and
  backslash, and \<^verbatim>\<open>$\<close> and backquote would expand. A backslash before a line feed
  joins two lines: both characters go.
\<close>

datatype quoting = Bare | Single | Double

definition shell_special :: "char \<Rightarrow> bool" where
  "shell_special c = (whitespace c \<or> c \<in> set ''|&;<>()$`*?[]#~!{}'')"

fun unquote_from :: "quoting \<Rightarrow> string \<Rightarrow> string option" where
  "unquote_from Bare [] = Some []"
| "unquote_from Single [] = None"
| "unquote_from Double [] = None"
| "unquote_from Single (c # cs) =
     (if c = squote then unquote_from Bare cs
      else map_option ((#) c) (unquote_from Single cs))"
| "unquote_from Bare (c # cs) =
     (if c = squote then unquote_from Single cs
      else if c = dquote then unquote_from Double cs
      else if c = backslash then
        (case cs of
           [] \<Rightarrow> None
         | d # ds \<Rightarrow>
             if d = CHR 0x0A then unquote_from Bare ds
             else map_option ((#) d) (unquote_from Bare ds))
      else if shell_special c then None
      else map_option ((#) c) (unquote_from Bare cs))"
| "unquote_from Double (c # cs) =
     (if c = dquote then unquote_from Bare cs
      else if c = backslash then
        (case cs of
           [] \<Rightarrow> None
         | d # ds \<Rightarrow>
             if d = CHR 0x0A then unquote_from Double ds
             else if d \<in> set [CHR 0x24, CHR 0x60, dquote, backslash]
             then map_option ((#) d) (unquote_from Double ds)
             else map_option (\<lambda>r. c # d # r) (unquote_from Double ds))
      else if c = CHR 0x24 \<or> c = CHR 0x60 then None
      else map_option ((#) c) (unquote_from Double cs))"

definition shell_unquote :: "string \<Rightarrow> string option" where
  "shell_unquote w = unquote_from Bare w"

section \<open>\<^verbatim>\<open>predeploy.py\<close>: the title of a note\<close>

text \<open>
  \<^verbatim>\<open>def _extract_title(text):
    return text.split(r"\n", 1)[0].split(r"\r", 1)[0].splitlines()[0]\<close>
\<close>

definition extract_title :: "string \<Rightarrow> error + string" where
  "extract_title text = index0 (splitlines (split_first escaped_r (split_first escaped_n text)))"

section \<open>\<^verbatim>\<open>common.py\<close>: the event context and the GitHub client\<close>

text \<open>
  A commit as the API and the push payload give it. \<open>parents\<close> holds the hashes of
  \<^verbatim>\<open>commit.parents.items\<close>; \<open>html_url\<close> is absent from the head commit of a push payload,
  where \<^verbatim>\<open>commit.get('html_url', commit.url)\<close> falls back to \<open>url\<close>.
\<close>

record commit =
  sha :: string
  message :: string
  committer_email :: string
  parents :: "string list"
  url :: string
  html_url :: "string option"

record pull_request =
  title :: string
  draft :: bool
  href :: string  \<comment> \<open>\<^verbatim>\<open>pull_request["_links"].html.href\<close>\<close>

record release =
  tag_name :: string

text \<open>
  \<^verbatim>\<open>context_github\<close> and the \<^verbatim>\<open>api\<close> client, as one value handed to every function. The
  parts of the payload that depend on the kind of event are optional. The three calls of
  the client read the remote repository; each either returns or fails, and the model takes
  one snapshot of the repository for a run.
\<close>

record github =
  event_name :: string
  context_sha :: string                \<comment> \<open>\<^verbatim>\<open>context_github.sha\<close>\<close>
  head_ref :: string
  ref :: string
  event_pull_request :: "pull_request option"
  event_release :: "release option"
  event_head_commit :: "commit option"
  default_branch :: string             \<comment> \<open>\<^verbatim>\<open>event.repository.default_branch\<close>\<close>
  repository_html_url :: string
  git_get_commit :: "string \<Rightarrow> error + commit"
  git_get_ref :: "string \<Rightarrow> error + string"     \<comment> \<open>the \<^verbatim>\<open>object.sha\<close> of a reference\<close>
  repos_compare_commits :: "string \<Rightarrow> string \<Rightarrow> error + string"   \<comment> \<open>the \<^verbatim>\<open>status\<close>\<close>

definition DEPLOY_DEV_BRANCH :: string where
  "DEPLOY_DEV_BRANCH = ''deploy/dev''"

definition BOT_EMAILS :: "string list" where
  "BOT_EMAILS = [''github-actions[bot]@users.noreply.github.com'', ''noreply@github.com'']"

text \<open>\<^verbatim>\<open>s.rsplit("/", 1)[-1]\<close>: what follows the last slash.\<close>

definition rsplit_last :: "string \<Rightarrow> string" where
  "rsplit_last s = rev (takeWhile (\<lambda>c. c \<noteq> CHR ''/'') (rev s))"

definition CURRENT_REF :: "github \<Rightarrow> string" where
  "CURRENT_REF gh = (if head_ref gh \<noteq> [] then head_ref gh else rsplit_last (ref gh))"

definition MAIN_BRANCH_NAME :: "github \<Rightarrow> string" where
  "MAIN_BRANCH_NAME gh = default_branch gh"

text \<open>
  \<^verbatim>\<open>def get_current_commit():
    if context_github.event_name == "push":
        return context_github.event.head_commit
    return api.git.get_commit(context_github.sha)\<close>

  A push payload without head commit gives \<^verbatim>\<open>None\<close>, and both callers read a field
  of the result next: the \<^verbatim>\<open>AttributeError\<close> of that read is raised here.
\<close>

definition get_current_commit :: "github \<Rightarrow> error + commit" where
  "get_current_commit gh =
     (if event_name gh = ''push''
      then (case event_head_commit gh of None \<Rightarrow> Inl AttributeError | Some c \<Rightarrow> Inr c)
      else git_get_commit gh (context_sha gh))"

text \<open>
  \<^verbatim>\<open>def get_last_commit(branch_name):
    branch = api.git.get_ref(f"heads/{ branch_name }")
    return api.git.get_commit(branch.object.sha)\<close>
\<close>

definition get_last_commit :: "github \<Rightarrow> string \<Rightarrow> error + commit" where
  "get_last_commit gh branch_name =
     and_then (git_get_ref gh (''heads/'' @ branch_name)) (\<lambda>object_sha. git_get_commit gh object_sha)"

section \<open>\<^verbatim>\<open>predeploy.py\<close>: the deploy note and the two checks\<close>

text \<open>\<^verbatim>\<open>RELEASE_PATTERN = re.compile(r"v[0-9]+(\.[0-9]+)*([a-z]+[0-9]+)?")\<close>\<close>

definition RELEASE_PATTERN :: rexp where
  "RELEASE_PATTERN =
     Seq (Chr (CHR ''v''))
       (Seq (Plus (Atom digit))
         (Seq (Star (Seq (Chr (CHR ''.'')) (Plus (Atom digit))))
           (Opt (Seq (Plus (Atom lower_letter)) (Plus (Atom digit))))))"

text \<open>\<^verbatim>\<open>AUX_PR_PATTERN = re.compile(r"[0-9\s]*Aux:.*", re.IGNORECASE)\<close>\<close>

definition AUX_PR_PATTERN :: rexp where
  "AUX_PR_PATTERN =
     Seq (Star (Atom (\<lambda>c. digit c \<or> whitespace c))) (Seq (lit_ic ''Aux:'') (Star Dot))"

text \<open>
  \<^verbatim>\<open>AUTO_PR_PATTERN = re.compile("Automatically set version .* of image .* in kustomization.yaml.*")\<close>
\<close>

definition AUTO_PR_PATTERN :: rexp where
  "AUTO_PR_PATTERN =
     Seq (lit ''Automatically set version '')
       (Seq (Star Dot)
         (Seq (lit '' of image '')
           (Seq (Star Dot)
             (Seq (lit '' in kustomization'')
               (Seq Dot (Seq (lit ''yaml'') (Star Dot)))))))"

text \<open>
  \<^verbatim>\<open>def get_deploy_note(commit=None):
    if context_github.event_name == "pull_request" and not commit:
        title = _extract_title(context_github.event.pull_request.title)
        pr_links = context_github.event.pull_request["_links"]
        return f"PR: { title } { pr_links.html.href }"
    if not commit:
        commit = get_current_commit()
    title = _extract_title(commit.message)
    return f"Commit: { title } { commit.get('html_url', commit.url) }"\<close>
\<close>

definition get_deploy_note :: "github \<Rightarrow> commit option \<Rightarrow> error + string" where
  "get_deploy_note gh commit =
     (if event_name gh = ''pull_request'' \<and> commit = None then
        (case event_pull_request gh of
           None \<Rightarrow> Inl AttributeError
         | Some pr \<Rightarrow>
             and_then (extract_title (title pr)) (\<lambda>t. Inr (''PR: '' @ t @ '' '' @ href pr)))
      else
        and_then (case commit of None \<Rightarrow> get_current_commit gh | Some c \<Rightarrow> Inr c)
          (\<lambda>c. and_then (extract_title (message c))
             (\<lambda>t. Inr (''Commit: '' @ t @ '' '' @
                (case html_url c of Some h \<Rightarrow> h | None \<Rightarrow> url c)))))"

text \<open>
  The test of the loop in \<^verbatim>\<open>_is_human_commit\<close>:
  \<^verbatim>\<open>commit.committer.email in BOT_EMAILS and AUTO_PR_PATTERN.match(commit.message)\<close>
\<close>

definition automated :: "commit \<Rightarrow> bool" where
  "automated c = (committer_email c \<in> set BOT_EMAILS \<and> re_match AUTO_PR_PATTERN (message c))"

text \<open>
  \<^verbatim>\<open>for commit in commits:
    if commit.committer.email in BOT_EMAILS and AUTO_PR_PATTERN.match(commit.message):
        return False
return True\<close>
\<close>

fun scan_commits :: "commit list \<Rightarrow> bool" where
  "scan_commits [] = True"
| "scan_commits (c # cs) = (if automated c then False else scan_commits cs)"

text \<open>\<^verbatim>\<open>[api.git.get_commit(c.sha) for c in cur_commit.parents.items]\<close>, left to right.\<close>

fun fetch_commits :: "github \<Rightarrow> string list \<Rightarrow> error + commit list" where
  "fetch_commits gh [] = Inr []"
| "fetch_commits gh (s # ss) =
     and_then (git_get_commit gh s) (\<lambda>c. and_then (fetch_commits gh ss) (\<lambda>cs. Inr (c # cs)))"

text \<open>
  \<^verbatim>\<open>def _is_human_commit():
    cur_commit = get_current_commit()
    if len(cur_commit.parents.items) > 1:
        commits = [api.git.get_commit(c.sha) for c in cur_commit.parents.items]
    else:
        commits = [cur_commit]
    ...\<close>
\<close>

definition is_human_commit :: "github \<Rightarrow> error + bool" where
  "is_human_commit gh =
     and_then (get_current_commit gh)
       (\<lambda>cur_commit.
          and_then (if length (parents cur_commit) > 1
                    then fetch_commits gh (parents cur_commit)
                    else Inr [cur_commit])
            (\<lambda>commits. Inr (scan_commits commits)))"

text \<open>
  \<^verbatim>\<open>check_deploy_required\<close>, its four tests in the order of the source. The lines it prints
  to the job's log are not part of the model.
\<close>

definition check_deploy_required :: "github \<Rightarrow> error + bool" where
  "check_deploy_required gh =
     and_then
       (if event_name gh = ''release''
        then (case event_release gh of
                None \<Rightarrow> Inl AttributeError
              | Some rel \<Rightarrow> Inr (\<not> re_match RELEASE_PATTERN (tag_name rel)))
        else Inr False)
       (\<lambda>non_version_tag.
          if non_version_tag then Inr False
          else if event_name gh \<noteq> ''pull_request'' then Inr True
          else
            (case event_pull_request gh of
               None \<Rightarrow> Inl AttributeError
             | Some pr \<Rightarrow>
                 if draft pr then Inr False
                 else if re_match AUX_PR_PATTERN (title pr) then Inr False
                 else is_human_commit gh))"

text \<open>
  \<^verbatim>\<open>def _is_branch_directly_deployed():
    for branch in (MAIN_BRANCH_NAME, context_github.head_ref):
        if api.repos.compare_commits(branch, DEPLOY_DEV_BRANCH).status == "identical":
            return True\<close>

  The function falls off its end with \<^verbatim>\<open>None\<close>, which the caller's \<^verbatim>\<open>if\<close> reads as false.
\<close>

fun compare_branches :: "github \<Rightarrow> string list \<Rightarrow> error + bool" where
  "compare_branches gh [] = Inr False"
| "compare_branches gh (branch # branches) =
     and_then (repos_compare_commits gh branch DEPLOY_DEV_BRANCH)
       (\<lambda>status. if status = ''identical'' then Inr True else compare_branches gh branches)"

definition is_branch_directly_deployed :: "github \<Rightarrow> error + bool" where
  "is_branch_directly_deployed gh = compare_branches gh [MAIN_BRANCH_NAME gh, head_ref gh]"

text \<open>
  \<^verbatim>\<open>for name, commit in (("HEAD", None), (MAIN_BRANCH_NAME, last_main_commit)):
    if last_deploy_commit.committer.email not in BOT_EMAILS:
        continue
    if last_deploy_commit.message.endswith(get_deploy_note(commit)):
        return True
return False\<close>
\<close>

fun scan_candidates :: "github \<Rightarrow> commit \<Rightarrow> (string \<times> commit option) list \<Rightarrow> error + bool" where
  "scan_candidates gh last_deploy_commit [] = Inr False"
| "scan_candidates gh last_deploy_commit ((name, commit) # rest) =
     (if committer_email last_deploy_commit \<notin> set BOT_EMAILS
      then scan_candidates gh last_deploy_commit rest
      else and_then (get_deploy_note gh commit)
             (\<lambda>note. if endswith (message last_deploy_commit) note then Inr True
                      else scan_candidates gh last_deploy_commit rest))"

definition check_safe_to_deploy :: "github \<Rightarrow> error + bool" where
  "check_safe_to_deploy gh =
     (if event_name gh \<noteq> ''pull_request'' then Inr True
      else
        and_then (is_branch_directly_deployed gh)
          (\<lambda>deployed.
             if deployed then Inr True
             else
               and_then (get_last_commit gh DEPLOY_DEV_BRANCH)
                 (\<lambda>last_deploy_commit.
                    and_then (get_last_commit gh (MAIN_BRANCH_NAME gh))
                      (\<lambda>last_main_commit.
                         scan_candidates gh last_deploy_commit
                           [(''HEAD'', None), (MAIN_BRANCH_NAME gh, Some last_main_commit)]))))"

section \<open>\<^verbatim>\<open>predeploy.py\<close>: the entry point\<close>

text \<open>
  What a run leaves behind: the outputs set with \<^verbatim>\<open>actions_output\<close>, in order, the messages
  given to \<^verbatim>\<open>actions_error\<close>, the exit status of the process, and the exception that ended
  the run, if one did. An exception nobody catches ends a Python process with status 1.
\<close>

record run =
  outputs :: "(string \<times> string) list"
  error_reports :: "string list"
  exit_status :: nat
  uncaught :: "error option"

definition finished :: "(string \<times> string) list \<Rightarrow> run" where
  "finished outs = \<lparr>outputs = outs, error_reports = [], exit_status = 0, uncaught = None\<rparr>"

definition raised :: "(string \<times> string) list \<Rightarrow> error \<Rightarrow> run" where
  "raised outs e = \<lparr>outputs = outs, error_reports = [], exit_status = 1, uncaught = Some e\<rparr>"

text \<open>\<^verbatim>\<open>str(b).lower()\<close>\<close>

definition str_lower_bool :: "bool \<Rightarrow> string" where
  "str_lower_bool b = (if b then ''true'' else ''false'')"

text \<open>
  The text given to \<^verbatim>\<open>actions_error\<close>, after \<^verbatim>\<open>dedent\<close>, for a reference and a repository
  address without line breaks.
\<close>

definition blocked_message :: "github \<Rightarrow> string" where
  "blocked_message gh =
     [CHR 0x0A] @ ''The branch '' @ [dquote] @ DEPLOY_DEV_BRANCH @ [dquote] @
       '' is not a direct accessor of '' @ [dquote] @ CURRENT_REF gh @ [dquote] @ ''.'' @ [CHR 0x0A] @
     ''Make sure the conflicting PRs are merged and re-run this job.'' @ [CHR 0x0A] @
     ''If it did not help, try resetting the '' @ DEPLOY_DEV_BRANCH @ '' branch with'' @ [CHR 0x0A] @
     [dquote] @ ''Reset deploy/dev branch'' @ [dquote] @ '' action:'' @ [CHR 0x0A] @
     repository_html_url gh @ ''/actions/workflows/reset-dev-deploy-branch.yml'' @ [CHR 0x0A]"

text \<open>
  \<^verbatim>\<open>_deploy_note = get_deploy_note()
actions_output("note_raw", _deploy_note)
actions_output("note_clean", shlex.quote(_deploy_note))
_is_deploy_required = check_deploy_required()
actions_output("confirm", str(_is_deploy_required).lower())
if _is_deploy_required and not check_safe_to_deploy():
    actions_error(...)
    exit(1)\<close>

  \<^verbatim>\<open>set_git_user()\<close>, which configures the local git client first, is left out.
\<close>

definition main :: "github \<Rightarrow> run" where
  "main gh =
     (case get_deploy_note gh None of
        Inl e \<Rightarrow> raised [] e
      | Inr deploy_note \<Rightarrow>
          (let notes = [(''note_raw'', deploy_note), (''note_clean'', shlex_quote deploy_note)] in
           case check_deploy_required gh of
             Inl e \<Rightarrow> raised notes e
           | Inr is_deploy_required \<Rightarrow>
               (let outs = notes @ [(''confirm'', str_lower_bool is_deploy_required)] in
                if is_deploy_required then
                  (case check_safe_to_deploy gh of
                     Inl e \<Rightarrow> raised outs e
                   | Inr safe \<Rightarrow>
                       if \<not> safe
                       then \<lparr>outputs = outs, error_reports = [blocked_message gh],
                              exit_status = 1, uncaught = None\<rparr>
                       else finished outs)
                else finished outs)))"

section \<open>Sample events\<close>

text \<open>An event of the given kind, with a repository that cannot be reached.\<close>

definition offline_event :: "string \<Rightarrow> github" where
  "offline_event kind =
     \<lparr>event_name = kind, context_sha = ''m1'', head_ref = [], ref = ''refs/heads/main'',
      event_pull_request = None, event_release = None, event_head_commit = None,
      default_branch = ''main'', repository_html_url = ''https://host/repo'',
      git_get_commit = (\<lambda>_. Inl HTTPError), git_get_ref = (\<lambda>_. Inl HTTPError),
      repos_compare_commits = (\<lambda>_ _. Inl HTTPError)\<rparr>"

definition release_event :: "string \<Rightarrow> github" where
  "release_event tag = (offline_event ''release'')\<lparr>event_release := Some \<lparr>tag_name = tag\<rparr>\<rparr>"

definition offline_pr :: "string \<Rightarrow> bool \<Rightarrow> github" where
  "offline_pr ttl d =
     (offline_event ''pull_request'')
       \<lparr>head_ref := ''feature'', ref := ''refs/pull/42/merge'',
        event_pull_request := Some \<lparr>title = ttl, draft = d, href = ''https://host/pr/42''\<rparr>\<rparr>"

text \<open>
  A small repository: a commit written by a developer, a version bump committed by the CI
  on top of it, the merge of the two, and the deploy branch, whose last commit is a
  parameter. The main branch ends at the developer's commit.
\<close>

definition human_commit :: commit where
  "human_commit =
     \<lparr>sha = ''p1'', message = ''Add retry logic'', committer_email = ''dev@example.com'',
      parents = [''p0''], url = ''https://api.host/commits/p1'',
      html_url = Some ''https://host/commit/p1''\<rparr>"

definition bump_commit :: commit where
  "bump_commit =
     \<lparr>sha = ''p2'',
      message = ''Automatically set version 1.2.3 of image api in kustomization.yaml'',
      committer_email = ''github-actions[bot]@users.noreply.github.com'',
      parents = [''p1''], url = ''https://api.host/commits/p2'',
      html_url = Some ''https://host/commit/p2''\<rparr>"

definition merge_commit :: commit where
  "merge_commit =
     \<lparr>sha = ''m1'', message = ''Merge p2 into p1'', committer_email = ''noreply@github.com'',
      parents = [''p1'', ''p2''], url = ''https://api.host/commits/m1'',
      html_url = Some ''https://host/commit/m1''\<rparr>"

definition deploy_commit :: "string \<Rightarrow> string \<Rightarrow> commit" where
  "deploy_commit email msg =
     \<lparr>sha = ''d1'', message = msg, committer_email = email, parents = [''d0''],
      url = ''https://api.host/commits/d1'', html_url = Some ''https://host/commit/d1''\<rparr>"

definition with_repository :: "commit \<Rightarrow> github \<Rightarrow> github" where
  "with_repository deploy gh =
     gh\<lparr>git_get_commit :=
          (\<lambda>s. if s = ''p1'' then Inr human_commit
               else if s = ''p2'' then Inr bump_commit
               else if s = ''m1'' then Inr merge_commit
               else if s = ''d1'' then Inr deploy
               else Inl HTTPError),
        git_get_ref :=
          (\<lambda>r. if r = ''heads/main'' then Inr ''p1''
               else if r = ''heads/deploy/dev'' then Inr ''d1''
               else Inl HTTPError),
        repos_compare_commits := (\<lambda>base head. Inr ''diverged'')\<rparr>"

section \<open>Facts about the string functions\<close>

lemma splitlines_Nil: "splitlines [] = []"
  by (simp add: splitlines.simps)

lemma splitlines_Cons: "splitlines (c # cs) = first_line (c # cs) # splitlines (after_line (c # cs))"
  by (subst splitlines.simps) simp

lemma splitlines_sample:
  "splitlines (''one'' @ [CHR 0x0D, CHR 0x0A] @ ''two'' @ [CHR 0x0A, CHR 0x0A]) = [''one'', ''two'', []]"
  by (simp add: splitlines_Cons splitlines_Nil first_line_def after_line_def linebreak_def)

lemma index0_splitlines:
  "index0 (splitlines s) = (if s = [] then Inl IndexError else Inr (first_line s))"
  by (cases s) (simp_all add: splitlines_Nil splitlines_Cons index0_def)

lemma extract_title_eq:
  "extract_title text =
     (if split_first escaped_r (split_first escaped_n text) = [] then Inl IndexError
      else Inr (first_line (split_first escaped_r (split_first escaped_n text))))"
  by (simp add: extract_title_def index0_splitlines)

lemma split_first_prefix: "prefix (split_first sep s) s"
  by (induction s) auto

lemma first_line_prefix: "prefix (first_line s) s"
  by (simp add: first_line_def takeWhile_is_prefix)

lemma first_line_no_linebreak: "list_all (\<lambda>c. \<not> linebreak c) (first_line s)"
  unfolding first_line_def list_all_iff using set_takeWhileD by fastforce

lemma first_line_id: "list_all (\<lambda>c. \<not> linebreak c) s \<Longrightarrow> first_line s = s"
  by (simp add: first_line_def list_all_iff)

lemma split_first_id: "\<not> contains sep s \<Longrightarrow> split_first sep s = s"
  by (induction s) auto

lemma contains_prefix: "prefix p s \<Longrightarrow> contains sub p \<Longrightarrow> contains sub s"
proof (induction p arbitrary: s)
  case Nil
  then have "sub = []" by simp
  then show ?case by (cases s) simp_all
next
  case (Cons a p)
  from Cons.prems(1) obtain s' where s: "s = a # s'" and p: "prefix p s'"
    by (cases s) auto
  from Cons.prems(2) have "prefix sub (a # p) \<or> contains sub p" by simp
  then show ?case
  proof
    assume "prefix sub (a # p)"
    then have "prefix sub s" using Cons.prems(1) by (rule prefix_order.trans)
    with s show ?thesis by simp
  next
    assume "contains sub p"
    with Cons.IH p have "contains sub s'" by blast
    with s show ?thesis by simp
  qed
qed

lemma split_first_not_contains: "sep \<noteq> [] \<Longrightarrow> \<not> contains sep (split_first sep s)"
proof (induction s)
  case Nil
  then show ?case by simp
next
  case (Cons c cs)
  show ?case
  proof (cases "prefix sep (c # cs)")
    case True
    with Cons.prems show ?thesis by simp
  next
    case False
    have "\<not> prefix sep (c # split_first sep cs)"
    proof
      assume "prefix sep (c # split_first sep cs)"
      moreover have "prefix (c # split_first sep cs) (c # cs)"
        by (simp add: split_first_prefix)
      ultimately have "prefix sep (c # cs)" by (rule prefix_order.trans)
      with False show False by contradiction
    qed
    with False Cons show ?thesis by simp
  qed
qed

lemma split_first_Nil_iff: "split_first sep s = [] \<longleftrightarrow> s = [] \<or> prefix sep s"
  by (cases s) auto

lemma prefix_escaped_r_split:
  "prefix escaped_r (split_first escaped_n s) \<longleftrightarrow> prefix escaped_r s"
proof (cases s)
  case Nil
  then show ?thesis by simp
next
  case (Cons a as)
  note outer = Cons
  show ?thesis
  proof (cases as)
    case Nil
    with outer show ?thesis by (auto simp: escaped_r_def escaped_n_def)
  next
    case (Cons b bs)
    with outer show ?thesis by (auto simp: escaped_r_def escaped_n_def backslash_def)
  qed
qed

lemma extract_title_raises_iff:
  "extract_title s = Inl IndexError \<longleftrightarrow> s = [] \<or> prefix escaped_n s \<or> prefix escaped_r s"
  by (auto simp: extract_title_eq split_first_Nil_iff prefix_escaped_r_split)

lemma extract_title_no_break:
  assumes "extract_title m = Inr t"
  shows "list_all (\<lambda>c. \<not> linebreak c) t \<and> \<not> contains escaped_n t \<and> \<not> contains escaped_r t"
proof -
  let ?a = "split_first escaped_n m"
  let ?b = "split_first escaped_r ?a"
  from assms have t: "t = first_line ?b"
    by (simp add: extract_title_eq split: if_splits)
  have "\<not> contains escaped_n ?a"
    by (rule split_first_not_contains) (simp add: escaped_n_def)
  moreover have "prefix t ?a"
    unfolding t using first_line_prefix split_first_prefix by (rule prefix_order.trans)
  ultimately have n: "\<not> contains escaped_n t"
    using contains_prefix by blast
  have "\<not> contains escaped_r ?b"
    by (rule split_first_not_contains) (simp add: escaped_r_def)
  moreover have "prefix t ?b"
    unfolding t by (rule first_line_prefix)
  ultimately have r: "\<not> contains escaped_r t"
    using contains_prefix by blast
  from t n r show ?thesis by (simp add: first_line_no_linebreak)
qed

lemma extract_title_id:
  assumes "m \<noteq> []" and "list_all (\<lambda>c. \<not> linebreak c) m"
    and "\<not> contains escaped_n m" and "\<not> contains escaped_r m"
  shows "extract_title m = Inr m"
  using assms by (simp add: extract_title_eq split_first_id first_line_id)

lemmas string_consts = escaped_n_def escaped_r_def backslash_def first_line_def linebreak_def

section \<open>The matcher agrees with the reference semantics\<close>

inductive_cases matches_ZeroE: "matches Zero w"
inductive_cases matches_OneE: "matches One w"
inductive_cases matches_AtomE: "matches (Atom p) w"
inductive_cases matches_AltE: "matches (Alt r s) w"
inductive_cases matches_SeqE: "matches (Seq r s) w"

lemma matches_Zero: "\<not> matches Zero w"
  by (auto elim: matches_ZeroE)

lemma matches_One: "matches One w \<longleftrightarrow> w = []"
  by (auto elim: matches_OneE intro: m_One)

lemma matches_Atom: "matches (Atom p) w \<longleftrightarrow> (\<exists>c. w = [c] \<and> p c)"
  by (auto elim: matches_AtomE intro: m_Atom)

lemma matches_Alt: "matches (Alt r s) w \<longleftrightarrow> matches r w \<or> matches s w"
  by (auto elim: matches_AltE intro: m_AltL m_AltR)

lemma matches_Seq: "matches (Seq r s) w \<longleftrightarrow> (\<exists>u v. w = u @ v \<and> matches r u \<and> matches s v)"
  by (blast elim: matches_SeqE intro: m_Seq)

lemma matches_Star_Cons:
  "matches (Star r) (c # w) \<longleftrightarrow> (\<exists>u v. w = u @ v \<and> matches r (c # u) \<and> matches (Star r) v)"
proof
  assume "matches (Star r) (c # w)"
  then have "\<exists>u v. w = u @ v \<and> matches r (c # u) \<and> matches (Star r) v"
  proof (induction "Star r" "c # w" arbitrary: w rule: matches.induct)
    case (m_StarStep s t)
    show ?case
    proof (cases s)
      case Nil
      with m_StarStep show ?thesis by simp
    next
      case (Cons a s')
      with m_StarStep.hyps show ?thesis by auto
    qed
  qed
  then show "\<exists>u v. w = u @ v \<and> matches r (c # u) \<and> matches (Star r) v" .
next
  assume "\<exists>u v. w = u @ v \<and> matches r (c # u) \<and> matches (Star r) v"
  then obtain u v where "w = u @ v" "matches r (c # u)" "matches (Star r) v" by blast
  then show "matches (Star r) (c # w)"
    using m_StarStep [of r "c # u" v] by simp
qed

lemma nullable_iff: "nullable r \<longleftrightarrow> matches r []"
  by (induction r) (auto simp: matches_Zero matches_One matches_Atom matches_Alt matches_Seq intro: m_StarNil)

lemma matches_alt: "matches (alt r s) w \<longleftrightarrow> matches r w \<or> matches s w"
  by (induction r s rule: alt.induct) (auto simp: matches_Zero matches_Alt)

lemma matches_seq: "matches (seq r s) w \<longleftrightarrow> (\<exists>u v. w = u @ v \<and> matches r u \<and> matches s v)"
  by (induction r s rule: seq.induct) (auto simp: matches_Zero matches_One matches_Seq)

lemma matches_deriv: "matches (deriv c r) w \<longleftrightarrow> matches r (c # w)"
proof (induction r arbitrary: w)
  case Zero
  show ?case by (simp add: matches_Zero)
next
  case One
  show ?case by (simp add: matches_Zero matches_One)
next
  case (Atom p)
  show ?case by (auto simp: matches_Zero matches_One matches_Atom)
next
  case (Alt r s)
  then show ?case by (simp add: matches_alt matches_Alt)
next
  case (Seq r s)
  have "matches (Seq r s) (c # w) \<longleftrightarrow>
      (\<exists>u v. w = u @ v \<and> matches r (c # u) \<and> matches s v) \<or> (matches r [] \<and> matches s (c # w))"
    by (auto simp: matches_Seq Cons_eq_append_conv) 
  with Seq show ?case
    by (auto simp: matches_alt matches_seq nullable_iff)
next
  case (Star r)
  then show ?case by (simp add: matches_seq matches_Star_Cons)
qed

lemma fullmatch_iff: "fullmatch r w \<longleftrightarrow> matches r w"
  by (induction w arbitrary: r) (simp_all add: nullable_iff matches_deriv)

lemma re_match_iff: "re_match r w \<longleftrightarrow> (\<exists>p. prefix p w \<and> fullmatch r p)"
proof (induction w arbitrary: r)
  case Nil
  show ?case by simp
next
  case (Cons c w)
  have "(\<exists>p. prefix p (c # w) \<and> fullmatch r p) \<longleftrightarrow>
        nullable r \<or> (\<exists>q. prefix q w \<and> fullmatch (deriv c r) q)"
    by (auto simp: prefix_Cons)
  with Cons show ?case by simp
qed

lemma re_match_Zero: "\<not> re_match Zero s"
  by (induction s) simp_all

lemma re_match_prefix: "fullmatch r p \<Longrightarrow> re_match r (p @ rest)"
  using re_match_iff [of r "p @ rest"] by auto

lemmas pattern_defs = RELEASE_PATTERN_def AUX_PR_PATTERN_def AUTO_PR_PATTERN_def Chr_def Chr_ic_def
  Dot_def Plus_def Opt_def digit_def lower_letter_def upper_letter_def whitespace_def
  lower_char_def code_def

text \<open>
  Under \<^verbatim>\<open>re.IGNORECASE\<close> the letters of \<^verbatim>\<open>Aux:\<close> match in either case, and the colon
  matches itself only.
\<close>

lemma code_lt: "code c < 256"
  by (simp add: code_def)

lemma code_eq_iff: "code x = code y \<longleftrightarrow> x = y"
  by (simp add: code_def)

lemma code_lower_char:
  "code (lower_char x) =
     (if (65 \<le> code x \<and> code x \<le> 90) \<or> (192 \<le> code x \<and> code x \<le> 222 \<and> code x \<noteq> 215)
      then code x + 32 else code x)"
proof -
  have "code (char_of n) = n" if "n < 256" for n :: nat
    using that by (simp add: code_def)
  then show ?thesis
    by (auto simp: lower_char_def upper_letter_def)
qed

lemma chr_ic_letters:
  "lower_char x = lower_char (CHR ''A'') \<longleftrightarrow> x = CHR ''A'' \<or> x = CHR ''a''"
  "lower_char x = lower_char (CHR ''u'') \<longleftrightarrow> x = CHR ''U'' \<or> x = CHR ''u''"
  "lower_char x = lower_char (CHR ''x'') \<longleftrightarrow> x = CHR ''X'' \<or> x = CHR ''x''"
  "lower_char x = lower_char (CHR '':'') \<longleftrightarrow> x = CHR '':''"
proof -
  have n: "code (CHR ''A'') = 65" "code (CHR ''a'') = 97" "code (CHR ''U'') = 85"
    "code (CHR ''u'') = 117" "code (CHR ''X'') = 88" "code (CHR ''x'') = 120" "code (CHR '':'') = 58"
    by (simp_all add: code_def)
  have k: "lower_char y = lower_char z \<longleftrightarrow> code (lower_char y) = code (lower_char z)" for y z
    by (simp add: code_eq_iff)
  show "lower_char x = lower_char (CHR ''A'') \<longleftrightarrow> x = CHR ''A'' \<or> x = CHR ''a''"
    unfolding k code_lower_char code_eq_iff [of x, symmetric] n using code_lt [of x] by auto
  show "lower_char x = lower_char (CHR ''u'') \<longleftrightarrow> x = CHR ''U'' \<or> x = CHR ''u''"
    unfolding k code_lower_char code_eq_iff [of x, symmetric] n using code_lt [of x] by auto
  show "lower_char x = lower_char (CHR ''x'') \<longleftrightarrow> x = CHR ''X'' \<or> x = CHR ''x''"
    unfolding k code_lower_char code_eq_iff [of x, symmetric] n using code_lt [of x] by auto
  show "lower_char x = lower_char (CHR '':'') \<longleftrightarrow> x = CHR '':''"
    unfolding k code_lower_char code_eq_iff [of x, symmetric] n using code_lt [of x] by auto
qed

text \<open>
  At the start of a tag, \<^verbatim>\<open>RELEASE_PATTERN\<close> asks for no more than the letter v and one digit.
\<close>

lemma release_pattern_prefix:
  "re_match RELEASE_PATTERN s \<longleftrightarrow> (\<exists>d rest. s = CHR ''v'' # d # rest \<and> digit d)"
proof (cases s)
  case Nil
  then show ?thesis by (simp add: RELEASE_PATTERN_def Chr_def Plus_def Opt_def)
next
  case (Cons c cs)
  note outer = Cons
  show ?thesis
  proof (cases cs)
    case Nil
    with outer show ?thesis by (simp add: RELEASE_PATTERN_def Chr_def Plus_def Opt_def)
  next
    case (Cons d rest)
    have "re_match RELEASE_PATTERN (c # d # rest) \<longleftrightarrow> c = CHR ''v'' \<and> digit d"
      by (cases rest) (auto simp: RELEASE_PATTERN_def Chr_def Plus_def Opt_def re_match_Zero)
    with outer Cons show ?thesis by simp
  qed
qed

lemmas event_defs = offline_event_def release_event_def offline_pr_def with_repository_def

lemmas commit_defs = human_commit_def bump_commit_def merge_commit_def deploy_commit_def

section \<open>The first line of a title or message\<close>

text \<open>
  C7, as the code has it. Whenever \<^verbatim>\<open>_extract_title\<close> returns a title for \<open>m\<close>, the title
  holds no line-break character and neither of the escape sequences \<^verbatim>\<open>\n\<close> and \<^verbatim>\<open>\r\<close>;
  and a non-empty \<open>m\<close> that holds no line-break character and neither escape sequence is
  returned unchanged.
\<close>

theorem extract_title_single_line:
  "(extract_title m = Inr t \<longrightarrow>
      list_all (\<lambda>c. \<not> linebreak c) t \<and> \<not> contains escaped_n t \<and> \<not> contains escaped_r t) \<and>
   (m \<noteq> [] \<and> list_all (\<lambda>c. \<not> linebreak c) m \<and> \<not> contains escaped_n m \<and> \<not> contains escaped_r m \<longrightarrow>
      extract_title m = Inr m)"
  using extract_title_no_break [of m t] extract_title_id [of m] by blast

theorem extract_title_single_line_witness:
  "extract_title ''Fix bug #42'' = Inr ''Fix bug #42'' \<and>
   list_all (\<lambda>c. \<not> linebreak c) ''Fix bug #42'' \<and>
   \<not> contains escaped_n ''Fix bug #42'' \<and> \<not> contains escaped_r ''Fix bug #42''"
proof -
  have ne: "''Fix bug #42'' \<noteq> []" by simp
  have lb: "list_all (\<lambda>c. \<not> linebreak c) ''Fix bug #42''"
    by (simp add: linebreak_def)
  have n: "\<not> contains escaped_n ''Fix bug #42''"
    by (simp add: escaped_n_def backslash_def)
  have r: "\<not> contains escaped_r ''Fix bug #42''"
    by (simp add: escaped_r_def backslash_def)
  from extract_title_single_line [of "''Fix bug #42''" "''Fix bug #42''"] ne lb n r
  show ?thesis by blast
qed

text \<open>
  The claim as the specification words it fails twice: a message with an escape sequence
  and no line break is cut at the escape sequence, and for the empty message no title is
  returned at all.
\<close>

theorem extract_title_counterexample:
  "list_all (\<lambda>c. \<not> linebreak c) (''a'' @ escaped_n @ ''b'') \<and>
   extract_title (''a'' @ escaped_n @ ''b'') = Inr ''a'' \<and>
   ''a'' \<noteq> ''a'' @ escaped_n @ ''b'' \<and>
   extract_title [] = Inl IndexError"
  by (simp add: extract_title_eq string_consts)

text \<open>
  C9. For the empty text, and for a text that starts with one of the escape sequences (so
  that nothing is left before it), \<^verbatim>\<open>_extract_title\<close> raises \<^verbatim>\<open>IndexError\<close>, since
  \<^verbatim>\<open>''.splitlines()\<close> is the empty list, and for no other text; \<^verbatim>\<open>get_deploy_note\<close> raises
  with it, for the title of the pull request as for the message of a commit.
\<close>

theorem get_deploy_note_raises_on_empty:
  "splitlines [] = [] \<and>
   (extract_title s = Inl IndexError \<longleftrightarrow> s = [] \<or> prefix escaped_n s \<or> prefix escaped_r s) \<and>
   (event_name gh = ''pull_request'' \<and> event_pull_request gh = Some pr \<and>
      extract_title (title pr) = Inl IndexError \<longrightarrow> get_deploy_note gh None = Inl IndexError) \<and>
   (event_name gh \<noteq> ''pull_request'' \<and> get_current_commit gh = Inr c \<and>
      extract_title (message c) = Inl IndexError \<longrightarrow> get_deploy_note gh None = Inl IndexError) \<and>
   (extract_title (message c) = Inl IndexError \<longrightarrow> get_deploy_note gh (Some c) = Inl IndexError)"
proof (intro conjI)
  show "splitlines [] = []"
    by (rule splitlines_Nil)
  show "extract_title s = Inl IndexError \<longleftrightarrow> s = [] \<or> prefix escaped_n s \<or> prefix escaped_r s"
    by (rule extract_title_raises_iff)
  show "event_name gh = ''pull_request'' \<and> event_pull_request gh = Some pr \<and>
      extract_title (title pr) = Inl IndexError \<longrightarrow> get_deploy_note gh None = Inl IndexError"
    by (simp add: get_deploy_note_def and_then_def)
  show "event_name gh \<noteq> ''pull_request'' \<and> get_current_commit gh = Inr c \<and>
      extract_title (message c) = Inl IndexError \<longrightarrow> get_deploy_note gh None = Inl IndexError"
    by (simp add: get_deploy_note_def and_then_def)
  show "extract_title (message c) = Inl IndexError \<longrightarrow> get_deploy_note gh (Some c) = Inl IndexError"
    by (simp add: get_deploy_note_def and_then_def)
qed

theorem get_deploy_note_raises_on_empty_witness:
  "extract_title [] = Inl IndexError \<and>
   extract_title (escaped_n @ ''second line'') = Inl IndexError \<and>
   get_deploy_note (offline_pr [] False) None = Inl IndexError \<and>
   get_deploy_note (offline_event ''push'')
     (Some \<lparr>sha = ''p1'', message = [], committer_email = ''dev@example.com'', parents = [],
            url = ''https://host/commits/p1'', html_url = None\<rparr>) = Inl IndexError"
proof -
  let ?c = "\<lparr>sha = ''p1'', message = [], committer_email = ''dev@example.com'', parents = [],
            url = ''https://host/commits/p1'', html_url = None\<rparr>"
  note t = get_deploy_note_raises_on_empty
  have e: "extract_title [] = Inl IndexError"
    using t [of "[]"] by simp
  have n: "extract_title (escaped_n @ ''second line'') = Inl IndexError"
    using t [of "escaped_n @ ''second line''"] by simp
  have p: "get_deploy_note (offline_pr [] False) None = Inl IndexError"
    using t [of "[]" "offline_pr [] False" "\<lparr>title = [], draft = False, href = ''https://host/pr/42''\<rparr>"] e
    by (simp add: event_defs)
  have c: "get_deploy_note (offline_event ''push'') (Some ?c) = Inl IndexError"
    using t [of "[]" "offline_event ''push''" _ ?c] e by simp
  from e n p c show ?thesis by simp
qed

section \<open>\<^verbatim>\<open>_is_human_commit\<close>\<close>

lemma scan_commits_iff: "scan_commits cs \<longleftrightarrow> list_all (\<lambda>c. \<not> automated c) cs"
  by (induction cs) simp_all

lemma fetch_commits_iff:
  "fetch_commits gh shas = Inr cs \<longleftrightarrow> map (git_get_commit gh) shas = map Inr cs"
proof (induction shas arbitrary: cs)
  case Nil
  show ?case by auto
next
  case (Cons s shas)
  show ?case
  proof (cases "git_get_commit gh s")
    case (Inl e)
    then show ?thesis by (auto simp: and_then_def)
  next
    case (Inr c)
    note c = Inr
    show ?thesis
    proof (cases "fetch_commits gh shas")
      case (Inl e)
      with c Cons [of "tl cs"] show ?thesis
        by (cases cs) (auto simp: and_then_def)
    next
      case (Inr cs')
      with c Cons [of cs'] Cons [of "tl cs"] show ?thesis
        by (cases cs) (auto simp: and_then_def)
    qed
  qed
qed

lemma is_human_commit_single:
  "get_current_commit gh = Inr c \<Longrightarrow> length (parents c) \<le> 1 \<Longrightarrow>
   is_human_commit gh = Inr (\<not> automated c)"
  by (simp add: is_human_commit_def and_then_def)

lemma is_human_commit_merge:
  "get_current_commit gh = Inr c \<Longrightarrow> 1 < length (parents c) \<Longrightarrow>
   map (git_get_commit gh) (parents c) = map Inr ps \<Longrightarrow>
   is_human_commit gh = Inr (list_all (\<lambda>p. \<not> automated p) ps)"
  by (simp add: is_human_commit_def and_then_def fetch_commits_iff [symmetric] scan_commits_iff)

lemma automated_human: "\<not> automated human_commit"
  by (simp add: automated_def human_commit_def BOT_EMAILS_def)

lemma bump_matches: "re_match AUTO_PR_PATTERN (message bump_commit)"
  unfolding bump_commit_def by (simp add: pattern_defs)

lemma automated_bump: "automated bump_commit"
  using bump_matches by (simp add: automated_def bump_commit_def BOT_EMAILS_def)


lemma fetch_commits_fails:
  "s \<in> set shas \<Longrightarrow> git_get_commit gh s = Inl e \<Longrightarrow> \<exists>e'. fetch_commits gh shas = Inl e'"
proof (induction shas)
  case Nil
  then show ?case by simp
next
  case (Cons a shas)
  show ?case
  proof (cases "git_get_commit gh a")
    case (Inl e0)
    then show ?thesis by (simp add: and_then_def)
  next
    case (Inr c)
    with Cons.prems have "s \<in> set shas" by auto
    with Cons have "\<exists>e'. fetch_commits gh shas = Inl e'" by blast
    with Inr show ?thesis by (auto simp: and_then_def)
  qed
qed

lemma is_human_commit_merge_fails:
  "get_current_commit gh = Inr c \<Longrightarrow> 1 < length (parents c) \<Longrightarrow> s \<in> set (parents c) \<Longrightarrow>
   git_get_commit gh s = Inl e \<Longrightarrow> \<exists>e'. is_human_commit gh = Inl e'"
  using fetch_commits_fails [of s "parents c" gh e]
  by (auto simp: is_human_commit_def and_then_def)

lemma is_human_offline: "is_human_commit (offline_pr ttl d) = Inl HTTPError"
  by (simp add: is_human_commit_def get_current_commit_def and_then_def event_defs)

text \<open>
  C6. When the current commit has at most one parent, \<^verbatim>\<open>_is_human_commit\<close> returns false
  exactly when the committer's address is one of the two bot addresses and the message
  matches the version-bump pattern, and true otherwise.
\<close>

theorem is_human_commit_one_parent:
  "(get_current_commit gh = Inr c \<and> length (parents c) \<le> 1 \<longrightarrow>
      is_human_commit gh =
        Inr (\<not> (committer_email c \<in> set BOT_EMAILS \<and> re_match AUTO_PR_PATTERN (message c)))) \<and>
   BOT_EMAILS = [''github-actions[bot]@users.noreply.github.com'', ''noreply@github.com'']"
  using is_human_commit_single [of gh c] by (simp add: automated_def BOT_EMAILS_def)

theorem is_human_commit_one_parent_witness:
  "is_human_commit ((with_repository (deploy_commit ''noreply@github.com'' ''Deploy'')
       (offline_event ''pull_request''))\<lparr>context_sha := ''p1''\<rparr>) = Inr True \<and>
   is_human_commit ((with_repository (deploy_commit ''noreply@github.com'' ''Deploy'')
       (offline_event ''pull_request''))\<lparr>context_sha := ''p2''\<rparr>) = Inr False \<and>
   is_human_commit ((with_repository (deploy_commit ''noreply@github.com'' ''Deploy'')
       (offline_event ''pull_request''))\<lparr>context_sha := ''d1''\<rparr>) = Inr True \<and>
   is_human_commit ((offline_event ''push'')
       \<lparr>event_head_commit := Some (bump_commit\<lparr>committer_email := ''dev@example.com''\<rparr>)\<rparr>) = Inr True"
proof -
  note t = is_human_commit_one_parent
  let ?d = "deploy_commit ''noreply@github.com'' ''Deploy''"
  let ?g = "with_repository ?d (offline_event ''pull_request'')"
  have h: "get_current_commit (?g\<lparr>context_sha := ''p1''\<rparr>) = Inr human_commit \<and>
      length (parents human_commit) \<le> 1"
    by (simp add: get_current_commit_def event_defs human_commit_def)
  have hv: "\<not> (committer_email human_commit \<in> set BOT_EMAILS \<and>
      re_match AUTO_PR_PATTERN (message human_commit))"
    by (simp add: human_commit_def BOT_EMAILS_def)
  from h t [of "?g\<lparr>context_sha := ''p1''\<rparr>" human_commit] hv
  have a: "is_human_commit (?g\<lparr>context_sha := ''p1''\<rparr>) = Inr True"
    by simp
  have b0: "get_current_commit (?g\<lparr>context_sha := ''p2''\<rparr>) = Inr bump_commit \<and>
      length (parents bump_commit) \<le> 1"
    by (simp add: get_current_commit_def event_defs bump_commit_def)
  have bv: "committer_email bump_commit \<in> set BOT_EMAILS \<and>
      re_match AUTO_PR_PATTERN (message bump_commit)"
    using bump_matches by (simp add: bump_commit_def BOT_EMAILS_def)
  from b0 t [of "?g\<lparr>context_sha := ''p2''\<rparr>" bump_commit] bv
  have b: "is_human_commit (?g\<lparr>context_sha := ''p2''\<rparr>) = Inr False"
    by simp
  have c0: "get_current_commit (?g\<lparr>context_sha := ''d1''\<rparr>) = Inr ?d \<and> length (parents ?d) \<le> 1"
    by (simp add: get_current_commit_def event_defs deploy_commit_def)
  have cv: "\<not> re_match AUTO_PR_PATTERN (message ?d)"
    by (simp add: deploy_commit_def pattern_defs)
  from c0 t [of "?g\<lparr>context_sha := ''d1''\<rparr>" ?d] cv
  have c: "is_human_commit (?g\<lparr>context_sha := ''d1''\<rparr>) = Inr True"
    by simp
  let ?e = "bump_commit\<lparr>committer_email := ''dev@example.com''\<rparr>"
  let ?p = "(offline_event ''push'')\<lparr>event_head_commit := Some ?e\<rparr>"
  have d0: "get_current_commit ?p = Inr ?e \<and> length (parents ?e) \<le> 1"
    by (simp add: get_current_commit_def event_defs bump_commit_def)
  have dv: "committer_email ?e \<notin> set BOT_EMAILS"
    by (simp add: BOT_EMAILS_def)
  from d0 t [of ?p ?e] dv
  have d: "is_human_commit ?p = Inr True"
    by simp
  from a b c d show ?thesis by blast
qed

text \<open>
  C1, as the code has it. When the current commit is a merge, each parent is fetched, and
  the merge is human exactly when no parent is an automated commit (a bot address with a
  message that matches the version-bump pattern): one automated parent makes the merge
  automated, whatever the other parents are. A parent that cannot be fetched fails the
  classification.
\<close>

theorem is_human_commit_merge_parents:
  "(get_current_commit gh = Inr c \<and> 1 < length (parents c) \<and>
      map (git_get_commit gh) (parents c) = map Inr ps \<longrightarrow>
      is_human_commit gh =
        Inr (list_all (\<lambda>p. \<not> (committer_email p \<in> set BOT_EMAILS \<and>
                                re_match AUTO_PR_PATTERN (message p))) ps)) \<and>
   (get_current_commit gh = Inr c \<and> 1 < length (parents c) \<and> s \<in> set (parents c) \<and>
      git_get_commit gh s = Inl e \<longrightarrow> (\<exists>e'. is_human_commit gh = Inl e'))"
  using is_human_commit_merge [of gh c ps] is_human_commit_merge_fails [of gh c s e]
  by (simp add: automated_def)

theorem is_human_commit_merge_parents_witness:
  "is_human_commit (with_repository (deploy_commit ''noreply@github.com'' ''Deploy'')
       (offline_pr ''Add retry logic'' False)) = Inr False \<and>
   is_human_commit ((offline_pr ''Add retry logic'' False)
       \<lparr>event_name := ''push'', event_head_commit := Some merge_commit\<rparr>) \<noteq> Inr True \<and>
   is_human_commit ((offline_pr ''Add retry logic'' False)
       \<lparr>event_name := ''push'', event_head_commit := Some merge_commit\<rparr>) \<noteq> Inr False"
proof -
  note t = is_human_commit_merge_parents
  let ?g = "with_repository (deploy_commit ''noreply@github.com'' ''Deploy'')
       (offline_pr ''Add retry logic'' False)"
  have cur: "get_current_commit ?g = Inr merge_commit \<and> 1 < length (parents merge_commit) \<and>
      map (git_get_commit ?g) (parents merge_commit) = map Inr [human_commit, bump_commit]"
    by (simp add: get_current_commit_def event_defs merge_commit_def)
  have v: "\<not> list_all (\<lambda>p. \<not> (committer_email p \<in> set BOT_EMAILS \<and>
                                re_match AUTO_PR_PATTERN (message p))) [human_commit, bump_commit]"
    using bump_matches by (simp add: bump_commit_def BOT_EMAILS_def)
  from cur t [of ?g merge_commit "[human_commit, bump_commit]"] v
  have a: "is_human_commit ?g = Inr False"
    by simp
  let ?o = "(offline_pr ''Add retry logic'' False)
       \<lparr>event_name := ''push'', event_head_commit := Some merge_commit\<rparr>"
  have off: "get_current_commit ?o = Inr merge_commit \<and> 1 < length (parents merge_commit) \<and>
      ''p2'' \<in> set (parents merge_commit) \<and> git_get_commit ?o ''p2'' = Inl HTTPError"
    by (simp add: get_current_commit_def event_defs merge_commit_def)
  from off t [of ?o merge_commit _ "''p2''" HTTPError]
  have b: "\<exists>e'. is_human_commit ?o = Inl e'"
    by blast
  then have c: "is_human_commit ?o \<noteq> Inr True" and d: "is_human_commit ?o \<noteq> Inr False"
    by auto
  from a c d show ?thesis by blast
qed

text \<open>
  The merge of a developer's commit with a version bump of the CI is classified as not
  human, where the specification expects human.
\<close>

theorem is_human_commit_merge_counterexample:
  "get_current_commit (with_repository (deploy_commit ''noreply@github.com'' ''Deploy'')
       (offline_pr ''Add retry logic'' False)) = Inr merge_commit \<and>
   parents merge_commit = [''p1'', ''p2''] \<and>
   git_get_commit (with_repository (deploy_commit ''noreply@github.com'' ''Deploy'')
       (offline_pr ''Add retry logic'' False)) ''p1'' = Inr human_commit \<and>
   git_get_commit (with_repository (deploy_commit ''noreply@github.com'' ''Deploy'')
       (offline_pr ''Add retry logic'' False)) ''p2'' = Inr bump_commit \<and>
   committer_email human_commit \<notin> set BOT_EMAILS \<and>
   committer_email bump_commit \<in> set BOT_EMAILS \<and>
   re_match AUTO_PR_PATTERN (message bump_commit) \<and>
   is_human_commit (with_repository (deploy_commit ''noreply@github.com'' ''Deploy'')
       (offline_pr ''Add retry logic'' False)) = Inr False"
proof -
  let ?g = "with_repository (deploy_commit ''noreply@github.com'' ''Deploy'')
       (offline_pr ''Add retry logic'' False)"
  have cur: "get_current_commit ?g = Inr merge_commit"
    by (simp add: get_current_commit_def event_defs)
  have par: "parents merge_commit = [''p1'', ''p2'']"
    by (simp add: merge_commit_def)
  have p1: "git_get_commit ?g ''p1'' = Inr human_commit"
    and p2: "git_get_commit ?g ''p2'' = Inr bump_commit"
    by (simp_all add: event_defs)
  have h: "committer_email human_commit \<notin> set BOT_EMAILS"
    by (simp add: human_commit_def BOT_EMAILS_def)
  have b: "committer_email bump_commit \<in> set BOT_EMAILS"
    by (simp add: bump_commit_def BOT_EMAILS_def)
  have m: "map (git_get_commit ?g) (parents merge_commit) = map Inr [human_commit, bump_commit]"
    using p1 p2 by (simp add: par)
  have len: "1 < length (parents merge_commit)"
    by (simp add: par)
  have "is_human_commit ?g = Inr (list_all (\<lambda>p. \<not> automated p) [human_commit, bump_commit])"
    by (rule is_human_commit_merge [OF cur len m])
  with automated_bump have r: "is_human_commit ?g = Inr False"
    by simp
  from cur par p1 p2 h b bump_matches r show ?thesis by blast
qed

section \<open>\<^verbatim>\<open>check_deploy_required\<close>\<close>

lemma check_deploy_required_release:
  "event_name gh = ''release'' \<Longrightarrow> event_release gh = Some rel \<Longrightarrow>
   check_deploy_required gh = Inr (re_match RELEASE_PATTERN (tag_name rel))"
  by (simp add: check_deploy_required_def and_then_def)

lemma check_deploy_required_other:
  "event_name gh \<noteq> ''release'' \<Longrightarrow> event_name gh \<noteq> ''pull_request'' \<Longrightarrow>
   check_deploy_required gh = Inr True"
  by (simp add: check_deploy_required_def and_then_def)

lemma check_deploy_required_pr:
  "event_name gh = ''pull_request'' \<Longrightarrow> event_pull_request gh = Some pr \<Longrightarrow>
   check_deploy_required gh =
     (if draft pr then Inr False
      else if re_match AUX_PR_PATTERN (title pr) then Inr False
      else is_human_commit gh)"
  by (simp add: check_deploy_required_def and_then_def)

lemma release_nightly: "\<not> re_match RELEASE_PATTERN ''nightly-build''"
  by (simp add: pattern_defs)
lemma release_v123: "re_match RELEASE_PATTERN ''v1.2.3''"
  by (simp add: pattern_defs)

lemma aux_123: "re_match AUX_PR_PATTERN ''123 Aux: cleanup docs''"
  by code_simp
lemma aux_add_retry: "\<not> re_match AUX_PR_PATTERN ''Add retry logic''"
  by code_simp

text \<open>
  C5. For a release whose tag does not match the version pattern, as \<^verbatim>\<open>nightly-build\<close>,
  \<^verbatim>\<open>check_deploy_required\<close> returns false; for every other event that is not a pull request
  (a release with a version tag such as \<^verbatim>\<open>v1.2.3\<close>, a push, a workflow dispatch) it returns
  true, and the result does not depend on what the commit classifier would read.
\<close>

theorem check_deploy_required_not_pull_request:
  "(event_name gh = ''release'' \<and> event_release gh = Some rel \<and>
      \<not> re_match RELEASE_PATTERN (tag_name rel) \<longrightarrow> check_deploy_required gh = Inr False) \<and>
   (event_name gh = ''release'' \<and> event_release gh = Some rel \<and>
      re_match RELEASE_PATTERN (tag_name rel) \<longrightarrow> check_deploy_required gh = Inr True) \<and>
   (event_name gh \<noteq> ''release'' \<and> event_name gh \<noteq> ''pull_request'' \<longrightarrow>
      check_deploy_required gh = Inr True) \<and>
   (event_name gh \<noteq> ''pull_request'' \<longrightarrow>
      check_deploy_required (gh\<lparr>context_sha := s, event_head_commit := h, git_get_commit := g\<rparr>) =
      check_deploy_required gh) \<and>
   \<not> re_match RELEASE_PATTERN ''nightly-build'' \<and> re_match RELEASE_PATTERN ''v1.2.3''"
proof (intro conjI)
  show "event_name gh = ''release'' \<and> event_release gh = Some rel \<and>
      \<not> re_match RELEASE_PATTERN (tag_name rel) \<longrightarrow> check_deploy_required gh = Inr False"
    by (simp add: check_deploy_required_release)
  show "event_name gh = ''release'' \<and> event_release gh = Some rel \<and>
      re_match RELEASE_PATTERN (tag_name rel) \<longrightarrow> check_deploy_required gh = Inr True"
    by (simp add: check_deploy_required_release)
  show "event_name gh \<noteq> ''release'' \<and> event_name gh \<noteq> ''pull_request'' \<longrightarrow>
      check_deploy_required gh = Inr True"
    by (simp add: check_deploy_required_other)
  show "event_name gh \<noteq> ''pull_request'' \<longrightarrow>
      check_deploy_required (gh\<lparr>context_sha := s, event_head_commit := h, git_get_commit := g\<rparr>) =
      check_deploy_required gh"
    by (simp add: check_deploy_required_def)
  show "\<not> re_match RELEASE_PATTERN ''nightly-build''" by (rule release_nightly)
  show "re_match RELEASE_PATTERN ''v1.2.3''" by (rule release_v123)
qed

theorem check_deploy_required_not_pull_request_witness:
  "check_deploy_required (release_event ''nightly-build'') = Inr False \<and>
   check_deploy_required (release_event ''v1.2.3'') = Inr True \<and>
   check_deploy_required (offline_event ''push'') = Inr True \<and>
   check_deploy_required (offline_event ''workflow_dispatch'') = Inr True \<and>
   check_deploy_required ((offline_event ''push'')\<lparr>context_sha := ''p1'', event_head_commit := None,
       git_get_commit := (\<lambda>_. Inl AttributeError)\<rparr>) = check_deploy_required (offline_event ''push'')"
proof -
  note t = check_deploy_required_not_pull_request
  have n: "event_name (release_event tag) = ''release'' \<and>
      event_release (release_event tag) = Some \<lparr>tag_name = tag\<rparr>" for tag
    by (simp add: event_defs)
  have tag: "tag_name \<lparr>tag_name = tag\<rparr> = tag" for tag
    by simp
  have "\<not> re_match RELEASE_PATTERN (tag_name \<lparr>tag_name = ''nightly-build''\<rparr>)"
    unfolding tag using t by blast
  with n [of "''nightly-build''"] t [of "release_event ''nightly-build''" "\<lparr>tag_name = ''nightly-build''\<rparr>"]
  have a: "check_deploy_required (release_event ''nightly-build'') = Inr False"
    by blast
  have "re_match RELEASE_PATTERN (tag_name \<lparr>tag_name = ''v1.2.3''\<rparr>)"
    unfolding tag using t by blast
  with n [of "''v1.2.3''"] t [of "release_event ''v1.2.3''" "\<lparr>tag_name = ''v1.2.3''\<rparr>"]
  have b: "check_deploy_required (release_event ''v1.2.3'') = Inr True"
    by blast
  have k: "event_name (offline_event kind) = kind" for kind
    by (simp add: event_defs)
  have "event_name (offline_event ''push'') \<noteq> ''release'' \<and>
      event_name (offline_event ''push'') \<noteq> ''pull_request''"
    unfolding k by simp
  with t [where gh = "offline_event ''push''" and s = "''p1''" and h = None
      and g = "\<lambda>_. Inl AttributeError"]
  have c: "check_deploy_required (offline_event ''push'') = Inr True"
    and e: "check_deploy_required ((offline_event ''push'')\<lparr>context_sha := ''p1'',
       event_head_commit := None, git_get_commit := (\<lambda>_. Inl AttributeError)\<rparr>) =
       check_deploy_required (offline_event ''push'')"
    by blast+
  have "event_name (offline_event ''workflow_dispatch'') \<noteq> ''release'' \<and>
      event_name (offline_event ''workflow_dispatch'') \<noteq> ''pull_request''"
    unfolding k by simp
  with t [of "offline_event ''workflow_dispatch''"]
  have d: "check_deploy_required (offline_event ''workflow_dispatch'') = Inr True"
    by blast
  from a b c d e show ?thesis by blast
qed

text \<open>
  C4. For a pull request the checks run in this order: a draft gives false whatever the
  title is; otherwise a title that matches the auxiliary pattern gives false; otherwise the
  result is that of the commit classifier. The title \<^verbatim>\<open>123 Aux: cleanup docs\<close> matches the
  pattern, \<^verbatim>\<open>Add retry logic\<close> does not.
\<close>

theorem check_deploy_required_pull_request:
  "(event_name gh = ''pull_request'' \<and> event_pull_request gh = Some pr \<longrightarrow>
      check_deploy_required gh =
        (if draft pr then Inr False
         else if re_match AUX_PR_PATTERN (title pr) then Inr False
         else is_human_commit gh)) \<and>
   re_match AUX_PR_PATTERN ''123 Aux: cleanup docs'' \<and>
   \<not> re_match AUX_PR_PATTERN ''Add retry logic''"
  using check_deploy_required_pr [of gh pr] aux_123 aux_add_retry by blast

theorem check_deploy_required_pull_request_witness:
  "check_deploy_required (offline_pr ''Add retry logic'' True) = Inr False \<and>
   check_deploy_required (offline_pr ''123 Aux: cleanup docs'' True) = Inr False \<and>
   check_deploy_required (offline_pr ''123 Aux: cleanup docs'' False) = Inr False \<and>
   check_deploy_required (offline_pr ''Add retry logic'' False) = Inl HTTPError \<and>
   check_deploy_required ((with_repository (deploy_commit ''noreply@github.com'' ''Deploy'')
       (offline_pr ''Add retry logic'' False))\<lparr>context_sha := ''p1''\<rparr>) = Inr True"
proof -
  note t = check_deploy_required_pull_request
  have ev: "event_name (offline_pr ttl d) = ''pull_request'' \<and>
      event_pull_request (offline_pr ttl d) = Some \<lparr>title = ttl, draft = d, href = ''https://host/pr/42''\<rparr>"
    for ttl d
    by (simp add: event_defs)
  have x: "re_match AUX_PR_PATTERN ''123 Aux: cleanup docs''"
    and y: "\<not> re_match AUX_PR_PATTERN ''Add retry logic''"
    using t by blast+
  from ev [of "''Add retry logic''" True] t [of "offline_pr ''Add retry logic'' True"]
  have a: "check_deploy_required (offline_pr ''Add retry logic'' True) = Inr False"
    by simp
  from ev [of "''123 Aux: cleanup docs''" True] t [of "offline_pr ''123 Aux: cleanup docs'' True"]
  have b: "check_deploy_required (offline_pr ''123 Aux: cleanup docs'' True) = Inr False"
    by simp
  from ev [of "''123 Aux: cleanup docs''" False] x
    t [of "offline_pr ''123 Aux: cleanup docs'' False"]
  have c: "check_deploy_required (offline_pr ''123 Aux: cleanup docs'' False) = Inr False"
    by simp
  from ev [of "''Add retry logic''" False] y t [of "offline_pr ''Add retry logic'' False"]
  have d: "check_deploy_required (offline_pr ''Add retry logic'' False) = Inl HTTPError"
    by (simp add: is_human_offline)
  let ?g = "(with_repository (deploy_commit ''noreply@github.com'' ''Deploy'')
       (offline_pr ''Add retry logic'' False))\<lparr>context_sha := ''p1''\<rparr>"
  have gv: "event_name ?g = ''pull_request'' \<and> event_pull_request ?g =
      Some \<lparr>title = ''Add retry logic'', draft = False, href = ''https://host/pr/42''\<rparr>"
    by (simp add: event_defs)
  have hu: "is_human_commit ?g = Inr True"
    using is_human_commit_single [of ?g human_commit] automated_human
    by (simp add: get_current_commit_def event_defs human_commit_def)
  from gv y hu t [of ?g]
  have e: "check_deploy_required ?g = Inr True"
    by simp
  from a b c d e show ?thesis by blast
qed

text \<open>
  C10. Both patterns are matched at the start of the text only, with no anchor at the end:
  a release tag that begins with a text of the version shape counts as a version tag, so
  \<^verbatim>\<open>check_deploy_required\<close> returns true for \<^verbatim>\<open>v1-nightly\<close> and \<^verbatim>\<open>v1.2.3.anything\<close>, though
  neither has the version shape as a whole; and a title that begins with a match of the
  auxiliary pattern is an auxiliary title.
\<close>

theorem check_deploy_required_prefix_match:
  "(event_name gh = ''release'' \<and> event_release gh = Some rel \<and> tag_name rel = p @ rest \<and>
      fullmatch RELEASE_PATTERN p \<longrightarrow> check_deploy_required gh = Inr True) \<and>
   (event_name gh = ''pull_request'' \<and> event_pull_request gh = Some pr \<and> \<not> draft pr \<and>
      title pr = p @ rest \<and> fullmatch AUX_PR_PATTERN p \<longrightarrow> check_deploy_required gh = Inr False) \<and>
   (re_match r t \<longleftrightarrow> (\<exists>q. prefix q t \<and> fullmatch r q)) \<and>
   fullmatch RELEASE_PATTERN ''v1'' \<and> \<not> fullmatch RELEASE_PATTERN ''v1-nightly'' \<and>
   fullmatch RELEASE_PATTERN ''v1.2.3'' \<and> \<not> fullmatch RELEASE_PATTERN ''v1.2.3.anything''"
proof (intro conjI)
  show "event_name gh = ''release'' \<and> event_release gh = Some rel \<and> tag_name rel = p @ rest \<and>
      fullmatch RELEASE_PATTERN p \<longrightarrow> check_deploy_required gh = Inr True"
    by (simp add: check_deploy_required_release re_match_prefix)
  show "event_name gh = ''pull_request'' \<and> event_pull_request gh = Some pr \<and> \<not> draft pr \<and>
      title pr = p @ rest \<and> fullmatch AUX_PR_PATTERN p \<longrightarrow> check_deploy_required gh = Inr False"
    by (simp add: check_deploy_required_pr re_match_prefix)
  show "re_match r t \<longleftrightarrow> (\<exists>q. prefix q t \<and> fullmatch r q)"
    by (rule re_match_iff)
  show "fullmatch RELEASE_PATTERN ''v1''" by (simp add: pattern_defs)
  show "\<not> fullmatch RELEASE_PATTERN ''v1-nightly''" by (simp add: pattern_defs)
  show "fullmatch RELEASE_PATTERN ''v1.2.3''" by (simp add: pattern_defs)
  show "\<not> fullmatch RELEASE_PATTERN ''v1.2.3.anything''" by (simp add: pattern_defs)
qed

theorem check_deploy_required_prefix_match_witness:
  "check_deploy_required (release_event (''v1'' @ ''-nightly'')) = Inr True \<and>
   \<not> fullmatch RELEASE_PATTERN ''v1-nightly'' \<and>
   check_deploy_required (release_event (''v1.2.3'' @ ''.anything'')) = Inr True \<and>
   \<not> fullmatch RELEASE_PATTERN ''v1.2.3.anything'' \<and>
   check_deploy_required (offline_pr (''Aux:'' @ '' docs'') False) = Inr False"
proof -
  note t = check_deploy_required_prefix_match
  have n: "event_name (release_event tag) = ''release'' \<and>
      event_release (release_event tag) = Some \<lparr>tag_name = tag\<rparr> \<and>
      tag_name \<lparr>tag_name = tag\<rparr> = tag" for tag
    by (simp add: event_defs)
  have v1: "fullmatch RELEASE_PATTERN ''v1''" and v123: "fullmatch RELEASE_PATTERN ''v1.2.3''"
    and n1: "\<not> fullmatch RELEASE_PATTERN ''v1-nightly''"
    and n2: "\<not> fullmatch RELEASE_PATTERN ''v1.2.3.anything''"
    using t by blast+
  from v1 n [of "''v1'' @ ''-nightly''"]
    t [of "release_event (''v1'' @ ''-nightly'')" "\<lparr>tag_name = ''v1'' @ ''-nightly''\<rparr>" "''v1''" "''-nightly''"]
  have a: "check_deploy_required (release_event (''v1'' @ ''-nightly'')) = Inr True"
    by blast
  from v123 n [of "''v1.2.3'' @ ''.anything''"]
    t [of "release_event (''v1.2.3'' @ ''.anything'')" "\<lparr>tag_name = ''v1.2.3'' @ ''.anything''\<rparr>"
        "''v1.2.3''" "''.anything''"]
  have b: "check_deploy_required (release_event (''v1.2.3'' @ ''.anything'')) = Inr True"
    by blast
  let ?pr = "\<lparr>title = ''Aux:'' @ '' docs'', draft = False, href = ''https://host/pr/42''\<rparr>"
  have f: "fullmatch AUX_PR_PATTERN ''Aux:''"
    by code_simp
  have p: "event_name (offline_pr (''Aux:'' @ '' docs'') False) = ''pull_request'' \<and>
      event_pull_request (offline_pr (''Aux:'' @ '' docs'') False) = Some ?pr \<and>
      \<not> draft ?pr \<and> title ?pr = ''Aux:'' @ '' docs''"
    by (simp add: event_defs)
  from f p t [of "offline_pr (''Aux:'' @ '' docs'') False" _ "''Aux:''" "'' docs''" ?pr]
  have c: "check_deploy_required (offline_pr (''Aux:'' @ '' docs'') False) = Inr False"
    by blast
  from a n1 b n2 c show ?thesis by blast
qed

section \<open>\<^verbatim>\<open>check_safe_to_deploy\<close>\<close>

lemma endswith_iff_suffix: "endswith s suf \<longleftrightarrow> suffix suf s"
proof
  assume "endswith s suf"
  then have "s = take (length s - length suf) s @ suf"
    by (metis append_take_drop_id endswith_def)
  then show "suffix suf s" by (rule suffixI)
next
  assume "suffix suf s"
  then obtain p where "s = p @ suf" by (auto simp: suffix_def)
  then show "endswith s suf" by (simp add: endswith_def)
qed

lemma endswith_append: "endswith (p @ s) s"
  by (simp add: endswith_def)

lemma compare_two:
  "repos_compare_commits gh (MAIN_BRANCH_NAME gh) DEPLOY_DEV_BRANCH = Inr s1 \<Longrightarrow>
   is_branch_directly_deployed gh =
     (if s1 = ''identical'' then Inr True
      else and_then (repos_compare_commits gh (head_ref gh) DEPLOY_DEV_BRANCH)
             (\<lambda>s2. Inr (s2 = ''identical'')))"
  by (simp add: is_branch_directly_deployed_def and_then_def split: sum.splits)

lemma check_safe_not_pr: "event_name gh \<noteq> ''pull_request'' \<Longrightarrow> check_safe_to_deploy gh = Inr True"
  by (simp add: check_safe_to_deploy_def)

lemma check_safe_identical:
  assumes "event_name gh = ''pull_request''"
    and "repos_compare_commits gh (MAIN_BRANCH_NAME gh) DEPLOY_DEV_BRANCH = Inr s1"
    and "s1 = ''identical'' \<or> repos_compare_commits gh (head_ref gh) DEPLOY_DEV_BRANCH = Inr ''identical''"
  shows "check_safe_to_deploy gh = Inr True"
  using assms(1,3) compare_two [OF assms(2)]
  by (auto simp: check_safe_to_deploy_def and_then_def)

lemma check_safe_scan:
  assumes "event_name gh = ''pull_request''"
    and "repos_compare_commits gh (MAIN_BRANCH_NAME gh) DEPLOY_DEV_BRANCH = Inr s1" and "s1 \<noteq> ''identical''"
    and "repos_compare_commits gh (head_ref gh) DEPLOY_DEV_BRANCH = Inr s2" and "s2 \<noteq> ''identical''"
    and "get_last_commit gh DEPLOY_DEV_BRANCH = Inr d"
    and "get_last_commit gh (MAIN_BRANCH_NAME gh) = Inr m"
  shows "check_safe_to_deploy gh =
     scan_candidates gh d [(''HEAD'', None), (MAIN_BRANCH_NAME gh, Some m)]"
  using assms(1,3-) compare_two [OF assms(2)]
  by (simp add: check_safe_to_deploy_def and_then_def)

lemma scan_not_bot:
  "committer_email d \<notin> set BOT_EMAILS \<Longrightarrow> scan_candidates gh d cands = Inr False"
  by (induction cands) auto

lemma scan_two:
  assumes "get_deploy_note gh None = Inr n1" and "get_deploy_note gh (Some m) = Inr n2"
  shows "scan_candidates gh d [(''HEAD'', None), (b, Some m)] =
     Inr (committer_email d \<in> set BOT_EMAILS \<and> (endswith (message d) n1 \<or> endswith (message d) n2))"
  using assms by (simp add: and_then_def)

lemma scan_first:
  assumes "get_deploy_note gh None = Inr n1" and "committer_email d \<in> set BOT_EMAILS"
    and "endswith (message d) n1"
  shows "scan_candidates gh d ((nm, None) # rest) = Inr True"
  using assms by (simp add: and_then_def)

lemma sample_pr_facts:
  fixes email msg
  defines "g \<equiv> with_repository (deploy_commit email msg) (offline_pr ''Fix bug #42'' False)"
  shows "event_name g = ''pull_request''"
    and "repos_compare_commits g (MAIN_BRANCH_NAME g) DEPLOY_DEV_BRANCH = Inr ''diverged''"
    and "repos_compare_commits g (head_ref g) DEPLOY_DEV_BRANCH = Inr ''diverged''"
    and "get_last_commit g DEPLOY_DEV_BRANCH = Inr (deploy_commit email msg)"
    and "get_last_commit g (MAIN_BRANCH_NAME g) = Inr human_commit"
    and "get_deploy_note g None = Inr ''PR: Fix bug #42 https://host/pr/42''"
    and "get_deploy_note g (Some human_commit) = Inr ''Commit: Add retry logic https://host/commit/p1''"
  unfolding g_def
  by (simp_all add: event_defs MAIN_BRANCH_NAME_def DEPLOY_DEV_BRANCH_def get_last_commit_def
      get_deploy_note_def and_then_def extract_title_eq string_consts human_commit_def)

text \<open>
  C2. For an event that is not a pull request \<^verbatim>\<open>check_safe_to_deploy\<close> returns true. For a
  pull request it returns true when the main branch, or else the head branch of the event,
  compares as identical to the deploy branch. When neither does, and the last commits of
  the deploy branch and of the main branch are fetched, it returns false for a last deploy
  commit whose committer is no bot; and with the two notes computed (the one of the event,
  the one of the last commit of main) it returns true exactly when the committer is a bot
  and the message of the last deploy commit ends with one of the two notes.
\<close>

theorem check_safe_to_deploy_cases:
  "(event_name gh \<noteq> ''pull_request'' \<longrightarrow> check_safe_to_deploy gh = Inr True) \<and>
   (event_name gh = ''pull_request'' \<and>
      repos_compare_commits gh (MAIN_BRANCH_NAME gh) DEPLOY_DEV_BRANCH = Inr s1 \<and>
      (s1 = ''identical'' \<or>
       repos_compare_commits gh (head_ref gh) DEPLOY_DEV_BRANCH = Inr ''identical'') \<longrightarrow>
      check_safe_to_deploy gh = Inr True) \<and>
   (event_name gh = ''pull_request'' \<and>
      repos_compare_commits gh (MAIN_BRANCH_NAME gh) DEPLOY_DEV_BRANCH = Inr s1 \<and> s1 \<noteq> ''identical'' \<and>
      repos_compare_commits gh (head_ref gh) DEPLOY_DEV_BRANCH = Inr s2 \<and> s2 \<noteq> ''identical'' \<and>
      get_last_commit gh DEPLOY_DEV_BRANCH = Inr d \<and>
      get_last_commit gh (MAIN_BRANCH_NAME gh) = Inr m \<longrightarrow>
      (committer_email d \<notin> set BOT_EMAILS \<longrightarrow> check_safe_to_deploy gh = Inr False) \<and>
      (get_deploy_note gh None = Inr n1 \<and> get_deploy_note gh (Some m) = Inr n2 \<longrightarrow>
         check_safe_to_deploy gh =
           Inr (committer_email d \<in> set BOT_EMAILS \<and>
                (endswith (message d) n1 \<or> endswith (message d) n2)))) \<and>
   (endswith msg note \<longleftrightarrow> suffix note msg)"
proof (intro conjI impI)
  assume "event_name gh \<noteq> ''pull_request''"
  then show "check_safe_to_deploy gh = Inr True" by (rule check_safe_not_pr)
next
  assume "event_name gh = ''pull_request'' \<and>
      repos_compare_commits gh (MAIN_BRANCH_NAME gh) DEPLOY_DEV_BRANCH = Inr s1 \<and>
      (s1 = ''identical'' \<or>
       repos_compare_commits gh (head_ref gh) DEPLOY_DEV_BRANCH = Inr ''identical'')"
  then show "check_safe_to_deploy gh = Inr True"
    using check_safe_identical [of gh s1] by blast
next
  assume a: "event_name gh = ''pull_request'' \<and>
      repos_compare_commits gh (MAIN_BRANCH_NAME gh) DEPLOY_DEV_BRANCH = Inr s1 \<and> s1 \<noteq> ''identical'' \<and>
      repos_compare_commits gh (head_ref gh) DEPLOY_DEV_BRANCH = Inr s2 \<and> s2 \<noteq> ''identical'' \<and>
      get_last_commit gh DEPLOY_DEV_BRANCH = Inr d \<and>
      get_last_commit gh (MAIN_BRANCH_NAME gh) = Inr m"
  then have s: "check_safe_to_deploy gh =
      scan_candidates gh d [(''HEAD'', None), (MAIN_BRANCH_NAME gh, Some m)]"
    using check_safe_scan [of gh s1 s2 d m] by blast
  {
    assume "committer_email d \<notin> set BOT_EMAILS"
    then show "check_safe_to_deploy gh = Inr False"
      unfolding s by (rule scan_not_bot)
  next
    assume "get_deploy_note gh None = Inr n1 \<and> get_deploy_note gh (Some m) = Inr n2"
    then show "check_safe_to_deploy gh =
           Inr (committer_email d \<in> set BOT_EMAILS \<and>
                (endswith (message d) n1 \<or> endswith (message d) n2))"
      unfolding s using scan_two [of gh n1 m n2 d] by blast
  }
next
  show "endswith msg note \<longleftrightarrow> suffix note msg" by (rule endswith_iff_suffix)
qed


theorem check_safe_to_deploy_cases_witness:
  "check_safe_to_deploy (offline_event ''push'') = Inr True \<and>
   check_safe_to_deploy ((offline_pr ''Fix bug #42'' False)
      \<lparr>repos_compare_commits := (\<lambda>base head. if base = ''main'' then Inr ''identical'' else Inl HTTPError)\<rparr>)
     = Inr True \<and>
   check_safe_to_deploy ((offline_pr ''Fix bug #42'' False)
      \<lparr>repos_compare_commits := (\<lambda>base head. if base = ''feature'' then Inr ''identical'' else Inr ''behind'')\<rparr>)
     = Inr True \<and>
   check_safe_to_deploy (with_repository
      (deploy_commit ''noreply@github.com'' ''Deploy PR: Fix bug #42 https://host/pr/42'')
      (offline_pr ''Fix bug #42'' False)) = Inr True \<and>
   check_safe_to_deploy (with_repository
      (deploy_commit ''noreply@github.com'' ''Deploy PR: Fix bug #43 https://host/pr/42'')
      (offline_pr ''Fix bug #42'' False)) = Inr False \<and>
   check_safe_to_deploy (with_repository
      (deploy_commit ''noreply@github.com'' ''Deploy Commit: Add retry logic https://host/commit/p1'')
      (offline_pr ''Fix bug #42'' False)) = Inr True \<and>
   check_safe_to_deploy (with_repository
      (deploy_commit ''dev@example.com'' ''Deploy PR: Fix bug #42 https://host/pr/42'')
      (offline_pr ''Fix bug #42'' False)) = Inr False"
proof -
  note t = check_safe_to_deploy_cases
  have "event_name (offline_event ''push'') \<noteq> ''pull_request''"
    by (simp add: event_defs)
  with t [of "offline_event ''push''"]
  have a: "check_safe_to_deploy (offline_event ''push'') = Inr True"
    by blast
  let ?m = "(offline_pr ''Fix bug #42'' False)
      \<lparr>repos_compare_commits := (\<lambda>base head. if base = ''main'' then Inr ''identical'' else Inl HTTPError)\<rparr>"
  have "event_name ?m = ''pull_request'' \<and>
      repos_compare_commits ?m (MAIN_BRANCH_NAME ?m) DEPLOY_DEV_BRANCH = Inr ''identical''"
    by (simp add: event_defs MAIN_BRANCH_NAME_def)
  with t [of ?m "''identical''"]
  have b: "check_safe_to_deploy ?m = Inr True"
    by blast
  let ?h = "(offline_pr ''Fix bug #42'' False)
      \<lparr>repos_compare_commits := (\<lambda>base head. if base = ''feature'' then Inr ''identical'' else Inr ''behind'')\<rparr>"
  have "event_name ?h = ''pull_request'' \<and>
      repos_compare_commits ?h (MAIN_BRANCH_NAME ?h) DEPLOY_DEV_BRANCH = Inr ''behind'' \<and>
      repos_compare_commits ?h (head_ref ?h) DEPLOY_DEV_BRANCH = Inr ''identical''"
    by (simp add: event_defs MAIN_BRANCH_NAME_def)
  with t [of ?h "''behind''"]
  have c: "check_safe_to_deploy ?h = Inr True"
    by blast
  have ne: "''diverged'' \<noteq> ''identical''"
    by simp
  have r: "check_safe_to_deploy (with_repository (deploy_commit email msg) (offline_pr ''Fix bug #42'' False)) =
      Inr (committer_email (deploy_commit email msg) \<in> set BOT_EMAILS \<and>
           (endswith (message (deploy_commit email msg)) ''PR: Fix bug #42 https://host/pr/42'' \<or>
            endswith (message (deploy_commit email msg))
              ''Commit: Add retry logic https://host/commit/p1''))" for email msg
    using sample_pr_facts [of email msg] ne
      t [of "with_repository (deploy_commit email msg) (offline_pr ''Fix bug #42'' False)"
        "''diverged''" "''diverged''" "deploy_commit email msg" human_commit
        "''PR: Fix bug #42 https://host/pr/42''" "''Commit: Add retry logic https://host/commit/p1''"]
    by blast
  have d: "check_safe_to_deploy (with_repository
      (deploy_commit ''noreply@github.com'' ''Deploy PR: Fix bug #42 https://host/pr/42'')
      (offline_pr ''Fix bug #42'' False)) = Inr True"
    unfolding r by (simp add: deploy_commit_def BOT_EMAILS_def endswith_def)
  have e: "check_safe_to_deploy (with_repository
      (deploy_commit ''noreply@github.com'' ''Deploy PR: Fix bug #43 https://host/pr/42'')
      (offline_pr ''Fix bug #42'' False)) = Inr False"
    unfolding r by (simp add: deploy_commit_def BOT_EMAILS_def endswith_def)
  have f: "check_safe_to_deploy (with_repository
      (deploy_commit ''noreply@github.com'' ''Deploy Commit: Add retry logic https://host/commit/p1'')
      (offline_pr ''Fix bug #42'' False)) = Inr True"
    unfolding r by (simp add: deploy_commit_def BOT_EMAILS_def endswith_def)
  have g: "check_safe_to_deploy (with_repository
      (deploy_commit ''dev@example.com'' ''Deploy PR: Fix bug #42 https://host/pr/42'')
      (offline_pr ''Fix bug #42'' False)) = Inr False"
    unfolding r by (simp add: deploy_commit_def BOT_EMAILS_def)
  from a b c d e f g show ?thesis by blast
qed


section \<open>The quoted note\<close>

lemmas shell_defs = shell_safe_def shell_special_def whitespace_def lower_letter_def upper_letter_def
  digit_def code_def squote_def dquote_def backslash_def

lemma shell_safe_plain:
  assumes "shell_safe c"
  shows "c \<noteq> squote" and "c \<noteq> dquote" and "c \<noteq> backslash" and "\<not> shell_special c"
  using assms by (auto simp: shell_defs)

lemma unquote_bare_safe:
  "list_all shell_safe s \<Longrightarrow>
   unquote_from Bare (s @ rest) = map_option ((@) s) (unquote_from Bare rest)"
proof (induction s)
  case Nil
  show ?case by (simp add: option.map_ident)
next
  case (Cons c s)
  then have "shell_safe c" and "list_all shell_safe s" by simp_all
  with Cons.IH show ?case
    by (simp add: shell_safe_plain option.map_comp comp_def)
qed

lemma quote_marks_differ:
  "dquote \<noteq> squote" "squote \<noteq> dquote" "squote \<noteq> backslash" "squote \<noteq> CHR 0x24"
  "squote \<noteq> CHR 0x60"
  by (simp_all add: squote_def dquote_def backslash_def)

lemma unquote_single_replace:
  "unquote_from Single (replace_squote s @ squote # rest) =
   map_option ((@) s) (unquote_from Bare rest)"
proof (induction s)
  case Nil
  show ?case by (simp add: option.map_ident)
next
  case (Cons c s)
  show ?case
  proof (cases "c = squote")
    case True
    with Cons show ?thesis
      by (simp add: quote_marks_differ option.map_comp comp_def)
  next
    case False
    with Cons show ?thesis
      by (simp add: option.map_comp comp_def)
  qed
qed

lemma shell_unquote_quote: "shell_unquote (shlex_quote s) = Some s"
proof (cases "s = []")
  case True
  then show ?thesis
    by (simp add: shell_unquote_def shlex_quote_def quote_marks_differ)
next
  case False
  show ?thesis
  proof (cases "list_all shell_safe s")
    case True
    with False unquote_bare_safe [of s "[]"] show ?thesis
      by (simp add: shell_unquote_def shlex_quote_def)
  next
    case False
    with \<open>s \<noteq> []\<close> unquote_single_replace [of s "[]"] show ?thesis
      by (simp add: shell_unquote_def shlex_quote_def)
  qed
qed

lemma shell_unquote_samples:
  "shell_unquote ''a b'' = None" and "shell_unquote ''PR:x'' = Some ''PR:x''"
  and "shell_unquote [squote, CHR ''a'', CHR '' '', CHR ''b''] = None"
  and "shell_unquote [dquote, CHR ''a'', CHR '' '', CHR ''b'', dquote] = Some ''a b''"
  by (simp_all add: shell_unquote_def shell_defs)

text \<open>
  C8. What \<^verbatim>\<open>shlex.quote\<close> makes of a note is read back by the shell as the note itself,
  whatever characters the note holds.
\<close>

theorem shlex_quote_reversible:
  "shell_unquote (shlex_quote s) = Some s"
  by (rule shell_unquote_quote)

section \<open>The entry point\<close>

lemma main_returns:
  assumes "get_deploy_note gh None = Inr deploy_note" and "check_deploy_required gh = Inr req"
    and "req \<longrightarrow> check_safe_to_deploy gh = Inr safe"
  shows "main gh =
     \<lparr>outputs = [(''note_raw'', deploy_note), (''note_clean'', shlex_quote deploy_note),
                 (''confirm'', str_lower_bool req)],
      error_reports = (if req \<and> \<not> safe then [blocked_message gh] else []),
      exit_status = (if req \<and> \<not> safe then 1 else 0),
      uncaught = None\<rparr>"
  using assms by (cases req) (simp_all add: main_def finished_def)

lemma fix_bug_quoted:
  "shlex_quote ''PR: Fix bug #42 https://host/pr/42'' =
     [squote] @ ''PR: Fix bug #42 https://host/pr/42'' @ [squote]"
  by (simp add: shlex_quote_def shell_defs)

text \<open>
  C3, as the code has it. On a run in which the note is computed and the checks return,
  the three outputs \<^verbatim>\<open>note_raw\<close>, \<^verbatim>\<open>note_clean\<close> (the note quoted for the shell) and
  \<^verbatim>\<open>confirm\<close> are set in this order; the run reports the error and exits with status 1
  exactly when \<^verbatim>\<open>check_deploy_required\<close> is true and \<^verbatim>\<open>check_safe_to_deploy\<close> is false,
  and exits with status 0 without an error report otherwise.
\<close>

theorem main_outputs_and_exit_status:
  "get_deploy_note gh None = Inr deploy_note \<and> check_deploy_required gh = Inr req \<and>
     (req \<longrightarrow> check_safe_to_deploy gh = Inr safe) \<longrightarrow>
   outputs (main gh) =
     [(''note_raw'', deploy_note), (''note_clean'', shlex_quote deploy_note),
      (''confirm'', if req then ''true'' else ''false'')] \<and>
   uncaught (main gh) = None \<and>
   (exit_status (main gh) = 1 \<longleftrightarrow> req \<and> \<not> safe) \<and>
   (exit_status (main gh) = 0 \<longleftrightarrow> \<not> (req \<and> \<not> safe)) \<and>
   (error_reports (main gh) = [blocked_message gh] \<longleftrightarrow> req \<and> \<not> safe) \<and>
   (error_reports (main gh) = [] \<longleftrightarrow> \<not> (req \<and> \<not> safe))"
proof
  assume a: "get_deploy_note gh None = Inr deploy_note \<and> check_deploy_required gh = Inr req \<and>
     (req \<longrightarrow> check_safe_to_deploy gh = Inr safe)"
  then have "main gh =
     \<lparr>outputs = [(''note_raw'', deploy_note), (''note_clean'', shlex_quote deploy_note),
                 (''confirm'', str_lower_bool req)],
      error_reports = (if req \<and> \<not> safe then [blocked_message gh] else []),
      exit_status = (if req \<and> \<not> safe then 1 else 0),
      uncaught = None\<rparr>"
    using main_returns [of gh deploy_note req safe] by blast
  then show "outputs (main gh) =
     [(''note_raw'', deploy_note), (''note_clean'', shlex_quote deploy_note),
      (''confirm'', if req then ''true'' else ''false'')] \<and>
   uncaught (main gh) = None \<and>
   (exit_status (main gh) = 1 \<longleftrightarrow> req \<and> \<not> safe) \<and>
   (exit_status (main gh) = 0 \<longleftrightarrow> \<not> (req \<and> \<not> safe)) \<and>
   (error_reports (main gh) = [blocked_message gh] \<longleftrightarrow> req \<and> \<not> safe) \<and>
   (error_reports (main gh) = [] \<longleftrightarrow> \<not> (req \<and> \<not> safe))"
    by (simp add: str_lower_bool_def)
qed

theorem main_outputs_and_exit_status_witness:
  "outputs (main ((with_repository (deploy_commit ''dev@example.com'' ''Manual deploy'')
       (offline_pr ''Fix bug #42'' False))\<lparr>context_sha := ''p1''\<rparr>)) =
     [(''note_raw'', ''PR: Fix bug #42 https://host/pr/42''),
      (''note_clean'', [squote] @ ''PR: Fix bug #42 https://host/pr/42'' @ [squote]),
      (''confirm'', ''true'')] \<and>
   exit_status (main ((with_repository (deploy_commit ''dev@example.com'' ''Manual deploy'')
       (offline_pr ''Fix bug #42'' False))\<lparr>context_sha := ''p1''\<rparr>)) = 1 \<and>
   error_reports (main ((with_repository (deploy_commit ''dev@example.com'' ''Manual deploy'')
       (offline_pr ''Fix bug #42'' False))\<lparr>context_sha := ''p1''\<rparr>)) \<noteq> [] \<and>
   exit_status (main ((with_repository
       (deploy_commit ''noreply@github.com'' ''Deploy PR: Fix bug #42 https://host/pr/42'')
       (offline_pr ''Fix bug #42'' False))\<lparr>context_sha := ''p1''\<rparr>)) = 0 \<and>
   error_reports (main ((with_repository
       (deploy_commit ''noreply@github.com'' ''Deploy PR: Fix bug #42 https://host/pr/42'')
       (offline_pr ''Fix bug #42'' False))\<lparr>context_sha := ''p1''\<rparr>)) = [] \<and>
   outputs (main (offline_pr ''Fix bug #42'' True)) =
     [(''note_raw'', ''PR: Fix bug #42 https://host/pr/42''),
      (''note_clean'', [squote] @ ''PR: Fix bug #42 https://host/pr/42'' @ [squote]),
      (''confirm'', ''false'')] \<and>
   exit_status (main (offline_pr ''Fix bug #42'' True)) = 0"
proof -
  note t = main_outputs_and_exit_status
  let ?n = "''PR: Fix bug #42 https://host/pr/42''"
  have fx: "get_deploy_note g None = Inr ?n \<and> check_deploy_required g = Inr True \<and>
      check_safe_to_deploy g =
        Inr (email \<in> set BOT_EMAILS \<and>
             (endswith msg ?n \<or> endswith msg ''Commit: Add retry logic https://host/commit/p1''))"
    if "g = (with_repository (deploy_commit email msg) (offline_pr ''Fix bug #42'' False))
          \<lparr>context_sha := ''p1''\<rparr>" for g email msg
  proof -
    have n: "get_deploy_note g None = Inr ?n"
      unfolding that
      by (simp add: event_defs get_deploy_note_def and_then_def extract_title_eq string_consts)
    have "\<not> re_match AUX_PR_PATTERN ''Fix bug #42''"
      by code_simp
    moreover have "is_human_commit g = Inr True"
      using is_human_commit_single [of g human_commit] automated_human unfolding that
      by (simp add: get_current_commit_def event_defs human_commit_def)
    ultimately have q: "check_deploy_required g = Inr True"
      using check_deploy_required_pr [of g "\<lparr>title = ''Fix bug #42'', draft = False, href = ''https://host/pr/42''\<rparr>"]
      unfolding that by (simp add: event_defs)
    have "check_safe_to_deploy g = scan_candidates g (deploy_commit email msg)
        [(''HEAD'', None), (MAIN_BRANCH_NAME g, Some human_commit)]"
      unfolding that
      by (rule check_safe_scan [where ?s1.0 = "''diverged''" and ?s2.0 = "''diverged''"])
        (simp_all add: event_defs MAIN_BRANCH_NAME_def DEPLOY_DEV_BRANCH_def get_last_commit_def
          and_then_def)
    moreover have "get_deploy_note g (Some human_commit) =
        Inr ''Commit: Add retry logic https://host/commit/p1''"
      by (simp add: get_deploy_note_def and_then_def extract_title_eq string_consts human_commit_def)
    ultimately have s: "check_safe_to_deploy g =
        Inr (email \<in> set BOT_EMAILS \<and>
             (endswith msg ?n \<or> endswith msg ''Commit: Add retry logic https://host/commit/p1''))"
      using scan_two [OF n, of human_commit _ "deploy_commit email msg" "MAIN_BRANCH_NAME g"]
      by (simp add: deploy_commit_def)
    from n q s show ?thesis by blast
  qed
  let ?b = "(with_repository (deploy_commit ''dev@example.com'' ''Manual deploy'')
       (offline_pr ''Fix bug #42'' False))\<lparr>context_sha := ''p1''\<rparr>"
  have "check_safe_to_deploy ?b = Inr False"
    using fx [of ?b "''dev@example.com''" "''Manual deploy''"] by (simp add: BOT_EMAILS_def)
  with fx [of ?b "''dev@example.com''" "''Manual deploy''"] t [of ?b ?n True False]
  have b: "outputs (main ?b) =
     [(''note_raw'', ?n), (''note_clean'', shlex_quote ?n), (''confirm'', ''true'')] \<and>
     exit_status (main ?b) = 1 \<and> error_reports (main ?b) \<noteq> []"
    by simp
  let ?s = "(with_repository
       (deploy_commit ''noreply@github.com'' ''Deploy PR: Fix bug #42 https://host/pr/42'')
       (offline_pr ''Fix bug #42'' False))\<lparr>context_sha := ''p1''\<rparr>"
  have "check_safe_to_deploy ?s = Inr True"
    using fx [of ?s "''noreply@github.com''" "''Deploy PR: Fix bug #42 https://host/pr/42''"]
    by (simp add: BOT_EMAILS_def endswith_def)
  with fx [of ?s "''noreply@github.com''" "''Deploy PR: Fix bug #42 https://host/pr/42''"]
    t [of ?s ?n True True]
  have s: "exit_status (main ?s) = 0 \<and> error_reports (main ?s) = []"
    by simp
  let ?d = "offline_pr ''Fix bug #42'' True"
  have "get_deploy_note ?d None = Inr ?n"
    by (simp add: event_defs get_deploy_note_def and_then_def extract_title_eq string_consts)
  moreover have "check_deploy_required ?d = Inr False"
    using check_deploy_required_pr [of ?d "\<lparr>title = ''Fix bug #42'', draft = True, href = ''https://host/pr/42''\<rparr>"]
    by (simp add: event_defs)
  ultimately have d: "outputs (main ?d) =
     [(''note_raw'', ?n), (''note_clean'', shlex_quote ?n), (''confirm'', ''false'')] \<and>
     exit_status (main ?d) = 0"
    using t [of ?d ?n False False] by simp
  from b s d show ?thesis
    unfolding fix_bug_quoted by blast
qed

text \<open>
  A run whose repository cannot be reached ends with an exception before any output is
  set: no output, status 1, no error report, though a deploy is required and safe.
\<close>

theorem main_counterexample:
  "check_deploy_required (offline_event ''workflow_dispatch'') = Inr True \<and>
   check_safe_to_deploy (offline_event ''workflow_dispatch'') = Inr True \<and>
   outputs (main (offline_event ''workflow_dispatch'')) = [] \<and>
   exit_status (main (offline_event ''workflow_dispatch'')) = 1 \<and>
   error_reports (main (offline_event ''workflow_dispatch'')) = [] \<and>
   uncaught (main (offline_event ''workflow_dispatch'')) = Some HTTPError"
proof -
  let ?g = "offline_event ''workflow_dispatch''"
  have k: "event_name ?g = ''workflow_dispatch''"
    by (simp add: event_defs)
  have r: "check_deploy_required ?g = Inr True"
    by (rule check_deploy_required_other) (simp_all add: k)
  have s: "check_safe_to_deploy ?g = Inr True"
    by (rule check_safe_not_pr) (simp add: k)
  have "get_deploy_note ?g None = Inl HTTPError"
    by (simp add: get_deploy_note_def get_current_commit_def and_then_def event_defs)
  then have "main ?g = raised [] HTTPError"
    by (simp add: main_def)
  with r s show ?thesis by (simp add: raised_def)
qed


end
